theory Spec2Isabelle
  imports Complex_Main "HOL-Library.Stream" "HOL-Library.Log_Nat"
begin

section \<open>Pagination calculator (internal/infrastructure/utils/pagination.go)\<close>

subsection \<open>Go's \<open>int\<close> on a 64-bit target\<close>

text \<open>
  Go's \<open>int\<close> is a 64-bit two's-complement integer on the targets this server is built
  for. Values are modelled as HOL integers; \<open>int64\<close> is the wrap-around that every Go
  addition and subtraction performs on its mathematical result.
\<close>

definition is_int64 :: "int \<Rightarrow> bool" where
  "is_int64 x \<longleftrightarrow> - (2 ^ 63) \<le> x \<and> x < 2 ^ 63"

definition int64 :: "int \<Rightarrow> int" where
  "int64 x = (x + 2 ^ 63) mod 2 ^ 64 - 2 ^ 63"

definition add64 :: "int \<Rightarrow> int \<Rightarrow> int" where
  "add64 a b = int64 (a + b)"

definition sub64 :: "int \<Rightarrow> int \<Rightarrow> int" where
  "sub64 a b = int64 (a - b)"

subsection \<open>Reading the page number: \<open>strconv.Atoi(c.DefaultQuery("page", "1"))\<close>\<close>

text \<open>
  The only part of the request context that \<open>Paginate\<close> reads is the query string,
  kept as the list of its name/value pairs in the order they were sent. \<open>DefaultQuery\<close>
  yields the first value of the parameter, or the default when the parameter is absent.
  The page number is what \<open>strconv.Atoi\<close> makes of that string.
\<close>

type_synonym Context = "(string \<times> string) list"

definition DefaultQuery :: "Context \<Rightarrow> string \<Rightarrow> string \<Rightarrow> string" where
  "DefaultQuery c key defaultValue = (case map_of c key of None \<Rightarrow> defaultValue | Some v \<Rightarrow> v)"

definition is_digit :: "char \<Rightarrow> bool" where
  "is_digit ch \<longleftrightarrow> 48 \<le> (of_char ch :: nat) \<and> (of_char ch :: nat) \<le> 57"

datatype num_error = ErrSyntax | ErrRange

definition maxUint64 :: nat where
  "maxUint64 = 2 ^ 64 - 1"

text \<open>
  The loop of \<open>strconv.ParseUint(s, 10, 64)\<close>: a byte that is no digit is a syntax error;
  a number that leaves 64 bits is a range error, raised at the digit where that happens,
  before the bytes after it are looked at. The value returned with an error is 0 for a
  syntax error and the largest \<open>uint64\<close> for a range error.
\<close>

fun ParseUint_loop :: "nat \<Rightarrow> string \<Rightarrow> nat \<times> num_error option" where
  "ParseUint_loop n [] = (n, None)"
| "ParseUint_loop n (ch # rest) =
     (if \<not> is_digit ch then (0, Some ErrSyntax)
      else if n \<ge> maxUint64 div 10 + 1 then (maxUint64, Some ErrRange)
      else (let n1 = n * 10 + (of_char ch - 48)
            in if n1 > maxUint64 then (maxUint64, Some ErrRange)
               else ParseUint_loop n1 rest))"

definition ParseUint :: "string \<Rightarrow> nat \<times> num_error option" where
  "ParseUint s = (if s = [] then (0, Some ErrSyntax) else ParseUint_loop 0 s)"

text \<open>
  \<open>strconv.ParseInt(s, 10, 0)\<close>: an optional sign, then \<open>ParseUint\<close>; a syntax error
  gives 0, a magnitude beyond the 64-bit range gives the nearest bound with a range error.
\<close>

definition ParseInt :: "string \<Rightarrow> int \<times> num_error option" where
  "ParseInt s =
     (if s = [] then (0, Some ErrSyntax)
      else (let neg = (hd s = CHR ''-'');
                s1 = (if hd s = CHR ''+'' \<or> hd s = CHR ''-'' then tl s else s)
            in case ParseUint s1 of
                 (un, Some ErrSyntax) \<Rightarrow> (0, Some ErrSyntax)
               | (un, err) \<Rightarrow>
                   if \<not> neg \<and> un \<ge> 2 ^ 63 then (2 ^ 63 - 1, Some ErrRange)
                   else if neg \<and> un > 2 ^ 63 then (- (2 ^ 63), Some ErrRange)
                   else (if neg then - int un else int un, None)))"

text \<open>
  \<open>strconv.Atoi\<close> is \<open>ParseInt(s, 10, 0)\<close>; its fast path for strings shorter than 19
  bytes reads the same sign and digits and cannot overflow. \<open>Atoi\<close> below is the value
  alone, since \<open>Paginate\<close> discards the error.
\<close>

definition Atoi :: "string \<Rightarrow> int" where
  "Atoi s = fst (ParseInt s)"

subsection \<open>The result struct and the computation\<close>

record PaginationData =
  HasOtherPages :: bool
  HasPrevious :: bool
  HasNext :: bool
  PreviousPageNumber :: int
  NextPageNumber :: int
  CurrentPageNumber :: int
  TotalPages :: int
  CustomRange :: "int list"

subsection \<open>\<open>float64\<close> arithmetic\<close>

text \<open>
  \<open>int(math.Ceil(float64(totalItems) / float64(itemsPerPage)))\<close> goes through IEEE 754
  binary64. A finite \<open>float64\<close> is modelled by the rational it denotes. Conversion from
  \<open>int\<close> and division round the exact result to 53 significant bits, to nearest, ties
  to even: \<open>ilog2\<close> is the binary exponent of a positive rational, \<open>round_even\<close> the
  rounding to an integer. All values that arise from two 64-bit integers lie in the
  normal range, so there is neither overflow nor underflow to model. Division by zero
  gives an infinity or NaN. Go leaves the conversion to \<open>int\<close> of a value that \<open>int\<close>
  cannot hold implementation-dependent: \<open>impl\<close> is what the platform yields there.
\<close>

definition ilog2 :: "rat \<Rightarrow> int" where
  "ilog2 x = (if x \<ge> 1 then bitlen \<lfloor>x\<rfloor> - 1 else - bitlen (\<lceil>1 / x\<rceil> - 1))"

definition round_even :: "rat \<Rightarrow> int" where
  "round_even x =
     (let f = \<lfloor>x\<rfloor>; d = x - of_int f
      in if d < 1 / 2 then f
         else if d > 1 / 2 then f + 1
         else if even f then f else f + 1)"

definition float64_round :: "rat \<Rightarrow> rat" where
  "float64_round x =
     (if x = 0 then 0
      else (let e = ilog2 \<bar>x\<bar> - 52
            in of_int (round_even (x / 2 powi e)) * 2 powi e))"

datatype float64 = Finite rat | PosInf | NegInf | NaN

definition float64_of_int :: "int \<Rightarrow> rat" where
  "float64_of_int n = float64_round (of_int n)"

definition float64_div :: "rat \<Rightarrow> rat \<Rightarrow> float64" where
  "float64_div x y =
     (if y = 0 then (if x = 0 then NaN else if x > 0 then PosInf else NegInf)
      else Finite (float64_round (x / y)))"

fun math_Ceil :: "float64 \<Rightarrow> float64" where
  "math_Ceil (Finite x) = Finite (of_int \<lceil>x\<rceil>)"
| "math_Ceil PosInf = PosInf"
| "math_Ceil NegInf = NegInf"
| "math_Ceil NaN = NaN"

fun int_of_float64 :: "(float64 \<Rightarrow> int) \<Rightarrow> float64 \<Rightarrow> int" where
  "int_of_float64 impl (Finite x) =
     (let t = (if x \<ge> 0 then \<lfloor>x\<rfloor> else \<lceil>x\<rceil>)
      in if is_int64 t then t else impl (Finite x))"
| "int_of_float64 impl other = impl other"

definition ceil_div :: "(float64 \<Rightarrow> int) \<Rightarrow> int \<Rightarrow> int \<Rightarrow> int" where
  "ceil_div impl totalItems itemsPerPage =
     int_of_float64 impl
       (math_Ceil (float64_div (float64_of_int totalItems) (float64_of_int itemsPerPage)))"

text \<open>
  The loop \<open>for i := startPage; i <= endPage; i++ { customRange = append(customRange, i) }\<close>.
  It is entered with \<open>endPage\<close> at most the larger of \<open>totalPages\<close> and \<open>5\<close>, so
  \<open>i++\<close> is a plain increment.
\<close>

function customRange_loop :: "int \<Rightarrow> int \<Rightarrow> int list \<Rightarrow> int list" where
  "customRange_loop i endPage customRange =
     (if i \<le> endPage then customRange_loop (i + 1) endPage (customRange @ [i])
      else customRange)"
  by pat_completeness auto
termination
  by (relation "measure (\<lambda>(i, endPage, customRange). nat (endPage + 1 - i))") auto

declare customRange_loop.simps [simp del]

definition Paginate_page ::
  "(float64 \<Rightarrow> int) \<Rightarrow> int \<Rightarrow> int \<Rightarrow> int \<Rightarrow> PaginationData" where
  "Paginate_page impl page0 totalItems itemsPerPage =
     (let totalPages = ceil_div impl totalItems itemsPerPage;
          page1 = (if page0 < 1 then 1 else page0);
          page = (if page1 > totalPages \<and> totalPages > 0 then totalPages else page1);
          startPage0 = sub64 page 2;
          startPage1 = (if startPage0 < 1 then 1 else startPage0);
          endPage0 = add64 page 2;
          endPage1 = (if endPage0 > totalPages then totalPages else endPage0);
          (startPage, endPage) =
            (if add64 (sub64 endPage1 startPage1) 1 < 5 \<and> totalPages \<ge> 5
             then (if startPage1 = 1 then (startPage1, 5)
                   else if endPage1 = totalPages then (sub64 totalPages 4, endPage1)
                   else (startPage1, endPage1))
             else (startPage1, endPage1));
          customRange = customRange_loop startPage endPage []
      in \<lparr> HasOtherPages = totalPages > 1,
           HasPrevious = page > 1,
           HasNext = page < totalPages,
           PreviousPageNumber = sub64 page 1,
           NextPageNumber = add64 page 1,
           CurrentPageNumber = page,
           TotalPages = totalPages,
           CustomRange = customRange \<rparr>)"

definition Paginate ::
  "(float64 \<Rightarrow> int) \<Rightarrow> Context \<Rightarrow> int \<Rightarrow> int \<Rightarrow> PaginationData" where
  "Paginate impl c totalItems itemsPerPage =
     Paginate_page impl (Atoi (DefaultQuery c ''page'' ''1'')) totalItems itemsPerPage"

text \<open>
  Two names for parts of \<open>Paginate_page\<close>, used to state what it computes: the clamping
  of the page number (source lines 27 to 32) and the window (lines 34 to 56).
\<close>

definition clamp_page :: "int \<Rightarrow> int \<Rightarrow> int" where
  "clamp_page page0 totalPages =
     (let page1 = (if page0 < 1 then 1 else page0)
      in if page1 > totalPages \<and> totalPages > 0 then totalPages else page1)"

definition window_of :: "int \<Rightarrow> int \<Rightarrow> int list" where
  "window_of page totalPages =
     (let startPage0 = sub64 page 2;
          startPage1 = (if startPage0 < 1 then 1 else startPage0);
          endPage0 = add64 page 2;
          endPage1 = (if endPage0 > totalPages then totalPages else endPage0);
          (startPage, endPage) =
            (if add64 (sub64 endPage1 startPage1) 1 < 5 \<and> totalPages \<ge> 5
             then (if startPage1 = 1 then (startPage1, 5)
                   else if endPage1 = totalPages then (sub64 totalPages 4, endPage1)
                   else (startPage1, endPage1))
             else (startPage1, endPage1))
      in customRange_loop startPage endPage [])"

text \<open>
  The window as the specification words it: the pages \<open>currentPage - 2\<close> to
  \<open>currentPage + 2\<close> that lie in \<open>1 .. totalPages\<close>; when these are fewer than five
  and there are at least five pages, a window starting at 1 has its end moved to 5, and
  otherwise a window ending at \<open>totalPages\<close> has its start moved to \<open>totalPages - 4\<close>.
\<close>

definition spec_window :: "int \<Rightarrow> int \<Rightarrow> int list" where
  "spec_window currentPage totalPages =
     (let w = filter (\<lambda>i. 1 \<le> i \<and> i \<le> totalPages) [currentPage - 2..currentPage + 2]
      in if length w < 5 \<and> totalPages \<ge> 5
         then (if w \<noteq> [] \<and> hd w = 1 then [hd w..5]
               else if w \<noteq> [] \<and> last w = totalPages then [totalPages - 4..last w]
               else w)
         else w)"

section \<open>Tags of a project (application/project\_usecase.go and its repository)\<close>

subsection \<open>Domain rows\<close>

text \<open>
  A UUID is modelled as a natural number, \<open>uuid.Nil\<close> as \<open>0\<close>. Of a project only the
  key and the columns the creating handler fills in are kept; the slice \<open>Tags\<close> that GORM
  maintains inside the Go struct is not: the association table of the store is what the
  properties below speak about.
\<close>

type_synonym uuid = nat

record Tag =
  Tag_ID :: uuid
  Tag_Name :: string

record Project =
  Project_ID :: uuid
  Project_OwnerID :: uuid
  Project_Title :: string
  Project_Description :: string

datatype error = PersistenceFailure | DuplicatedKey

subsection \<open>The repository interface (application/project\_repository.go)\<close>

text \<open>
  The five methods the two use cases call, over any store state \<open>'s\<close>. A Go \<open>error\<close>
  result is an \<open>error option\<close> (\<open>None\<close> is \<open>nil\<close>); \<open>(*Tag, error)\<close> is a sum.
  \<open>CreateProject\<close> and \<open>UpdateProject\<close> receive a pointer through which the store's
  hooks may fill in the key, so they also return the project as it is afterwards.
\<close>

record 's ProjectRepository =
  CreateProject :: "Project \<Rightarrow> 's \<Rightarrow> error option \<times> Project \<times> 's"
  UpdateProject :: "Project \<Rightarrow> 's \<Rightarrow> error option \<times> Project \<times> 's"
  FindOrCreateTag :: "string \<Rightarrow> 's \<Rightarrow> (error + Tag) \<times> 's"
  AssociateTagWithProject :: "Project \<Rightarrow> Tag \<Rightarrow> 's \<Rightarrow> error option \<times> 's"
  ClearProjectTags :: "Project \<Rightarrow> 's \<Rightarrow> error option \<times> 's"

subsection \<open>The use cases\<close>

text \<open>
  The loop \<open>for _, tagName := range tagNames\<close>, which \<open>CreateProject\<close> and
  \<open>UpdateProject\<close> both contain verbatim: on either error the iteration is abandoned with
  \<open>continue\<close>.
\<close>

fun tag_loop :: "'s ProjectRepository \<Rightarrow> Project \<Rightarrow> string list \<Rightarrow> 's \<Rightarrow> 's" where
  "tag_loop repo project [] s = s"
| "tag_loop repo project (tagName # rest) s =
     (case FindOrCreateTag repo tagName s of
        (Inl err, s1) \<Rightarrow> tag_loop repo project rest s1
      | (Inr tag, s1) \<Rightarrow>
          (case AssociateTagWithProject repo project tag s1 of
             (Some err, s2) \<Rightarrow> tag_loop repo project rest s2
           | (None, s2) \<Rightarrow> tag_loop repo project rest s2))"

definition ProjectUseCase_CreateProject ::
  "'s ProjectRepository \<Rightarrow> Project \<Rightarrow> string list \<Rightarrow> 's \<Rightarrow> error option \<times> 's" where
  "ProjectUseCase_CreateProject repo project tagNames s =
     (case CreateProject repo project s of
        (Some err, project', s1) \<Rightarrow> (Some err, s1)
      | (None, project', s1) \<Rightarrow> (None, tag_loop repo project' tagNames s1))"

definition ProjectUseCase_UpdateProject ::
  "'s ProjectRepository \<Rightarrow> Project \<Rightarrow> string list \<Rightarrow> 's \<Rightarrow> error option \<times> 's" where
  "ProjectUseCase_UpdateProject repo project tagNames s =
     (case ClearProjectTags repo project s of
        (clearErr, s1) \<Rightarrow>
          (case UpdateProject repo project s1 of
             (Some err, project', s2) \<Rightarrow> (Some err, s2)
           | (None, project', s2) \<Rightarrow> (None, tag_loop repo project' tagNames s2)))"

subsection \<open>The handlers' last step (interfaces/http/project\_handlers.go)\<close>

text \<open>
  \<open>strings.Split(tagsStr, ",")\<close>: the pieces between the commas, one more than there are
  commas, so that the empty string yields one empty piece.
\<close>

fun strings_Split :: "string \<Rightarrow> char \<Rightarrow> string list" where
  "strings_Split [] sep = [[]]"
| "strings_Split (ch # rest) sep =
     (if ch = sep then [] # strings_Split rest sep
      else (case strings_Split rest sep of
              piece # pieces \<Rightarrow> (ch # piece) # pieces
            | [] \<Rightarrow> [[ch]]))"

text \<open>
  Of each handler the part after the session checks, the form fields and the image upload:
  \<open>project\<close> is the struct those steps have built, \<open>tagsStr\<close> the form field \<open>tags\<close>.
\<close>

definition Handler_CreateProject ::
  "'s ProjectRepository \<Rightarrow> Project \<Rightarrow> string \<Rightarrow> 's \<Rightarrow> error option \<times> 's" where
  "Handler_CreateProject repo project tagsStr s =
     (let tagNames = strings_Split tagsStr CHR '',''
      in ProjectUseCase_CreateProject repo project tagNames s)"

definition Handler_UpdateProject ::
  "'s ProjectRepository \<Rightarrow> Project \<Rightarrow> string \<Rightarrow> 's \<Rightarrow> error option \<times> 's" where
  "Handler_UpdateProject repo project tagsStr s =
     (let tagNames = strings_Split tagsStr CHR '',''
      in ProjectUseCase_UpdateProject repo project tagNames s)"

text \<open>
  The candidates as the specification describes them: every piece trimmed of surrounding
  white space, the pieces that are then empty dropped.
\<close>

definition is_space :: "char \<Rightarrow> bool" where
  "is_space ch \<longleftrightarrow> ch \<in> set [CHR '' '', CHR 0x09, CHR 0x0A, CHR 0x0B, CHR 0x0C, CHR 0x0D]"

definition TrimSpace :: "string \<Rightarrow> string" where
  "TrimSpace s = rev (dropWhile is_space (rev (dropWhile is_space s)))"

definition spec_candidates :: "string \<Rightarrow> string list" where
  "spec_candidates tagsStr =
     filter (\<lambda>name. name \<noteq> []) (map TrimSpace (strings_Split tagsStr CHR '',''))"

subsection \<open>A repository that records the calls it receives\<close>

datatype call =
    CreateProject_call Project
  | UpdateProject_call Project
  | FindOrCreateTag_call string "error + Tag"
  | AssociateTagWithProject_call Project Tag "error option"
  | ClearProjectTags_call Project

text \<open>
  \<open>recording repo\<close> behaves as \<open>repo\<close> and appends every call to a log kept beside the
  store state; the two calls of the tag loop are logged with what they returned.
\<close>

definition recording :: "'s ProjectRepository \<Rightarrow> ('s \<times> call list) ProjectRepository" where
  "recording repo =
     \<lparr> CreateProject = (\<lambda>project (s, calls).
         case CreateProject repo project s of
           (err, project', s') \<Rightarrow> (err, project', (s', calls @ [CreateProject_call project]))),
       UpdateProject = (\<lambda>project (s, calls).
         case UpdateProject repo project s of
           (err, project', s') \<Rightarrow> (err, project', (s', calls @ [UpdateProject_call project]))),
       FindOrCreateTag = (\<lambda>tagName (s, calls).
         case FindOrCreateTag repo tagName s of
           (res, s') \<Rightarrow> (res, (s', calls @ [FindOrCreateTag_call tagName res]))),
       AssociateTagWithProject = (\<lambda>project tag (s, calls).
         case AssociateTagWithProject repo project tag s of
           (err, s') \<Rightarrow> (err, (s', calls @ [AssociateTagWithProject_call project tag err]))),
       ClearProjectTags = (\<lambda>project (s, calls).
         case ClearProjectTags repo project s of
           (err, s') \<Rightarrow> (err, (s', calls @ [ClearProjectTags_call project]))) \<rparr>"

fun looked_up :: "call list \<Rightarrow> string list" where
  "looked_up [] = []"
| "looked_up (FindOrCreateTag_call tagName res # calls) = tagName # looked_up calls"
| "looked_up (other # calls) = looked_up calls"

text \<open>
  The best-effort policy of the specification, as a property of a log of tag calls for
  one project: a look-up that failed is followed directly by the next look-up; a look-up
  that returned a tag is followed directly by the association of that very tag with the
  project, and whatever the association returned, the log goes on in the same way.
\<close>

fun tag_calls_ok :: "Project \<Rightarrow> call list \<Rightarrow> bool" where
  "tag_calls_ok project [] = True"
| "tag_calls_ok project (FindOrCreateTag_call tagName (Inl err) # calls) =
     tag_calls_ok project calls"
| "tag_calls_ok project
     (FindOrCreateTag_call tagName (Inr tag) # AssociateTagWithProject_call project' tag' res # calls) =
     (project' = project \<and> tag' = tag \<and> tag_calls_ok project calls)"
| "tag_calls_ok project (other # calls) = False"

text \<open>
  Every look-up of a log that returned a tag returned one named exactly as asked.
\<close>

fun named_as_asked :: "call list \<Rightarrow> bool" where
  "named_as_asked [] = True"
| "named_as_asked (FindOrCreateTag_call tagName (Inr tag) # calls) =
     (Tag_Name tag = tagName \<and> named_as_asked calls)"
| "named_as_asked (other # calls) = named_as_asked calls"

subsection \<open>The GORM repository (infrastructure, over PostgreSQL)\<close>

text \<open>
  The store holds the three tables the use cases touch. \<open>project_tags\<close> is the join table
  of the \<open>many2many\<close> relation, keyed by the pair of its columns. Table \<open>tags\<close> has the
  primary key \<open>id\<close> and no other uniqueness constraint: column \<open>name\<close> is declared
  \<open>size:255;not null\<close> only. Two streams stand for what the program does not control:
  \<open>failures\<close> says, call by call, whether the store rejects the call (unreachable, or a
  constraint other than a primary key), and \<open>uuids\<close> are the values \<open>uuid.New()\<close>
  returns in the \<open>BeforeCreate\<close> hooks. Each repository method is modelled by what its
  comment in the source and GORM's documentation say it does to the tables; a rejected
  call changes no table.
\<close>

record DB =
  projects :: "Project list"
  tags :: "Tag list"
  project_tags :: "(uuid \<times> uuid) list"
  failures :: "bool stream"
  uuids :: "uuid stream"

definition next_failure :: "DB \<Rightarrow> bool \<times> DB" where
  "next_failure db = (shd (failures db), db\<lparr>failures := stl (failures db)\<rparr>)"

definition uuid_New :: "DB \<Rightarrow> uuid \<times> DB" where
  "uuid_New db = (shd (uuids db), db\<lparr>uuids := stl (uuids db)\<rparr>)"

text \<open>\<open>DB.Create(project)\<close>: the hook gives a project without key a new one; the row is
  inserted unless its key is taken.\<close>

definition Gorm_CreateProject :: "Project \<Rightarrow> DB \<Rightarrow> error option \<times> Project \<times> DB" where
  "Gorm_CreateProject project db =
     (case next_failure db of
        (failed, db1) \<Rightarrow>
          if failed then (Some PersistenceFailure, project, db1)
          else (case (if Project_ID project = 0
                      then (case uuid_New db1 of
                              (u, db2) \<Rightarrow> (project\<lparr>Project_ID := u\<rparr>, db2))
                      else (project, db1)) of
                  (project', db2) \<Rightarrow>
                    if Project_ID project' \<in> set (map Project_ID (projects db2))
                    then (Some DuplicatedKey, project', db2)
                    else (None, project', db2\<lparr>projects := projects db2 @ [project']\<rparr>)))"

text \<open>\<open>DB.Save(project)\<close>: without key it creates; with a key it writes all columns of
  that row, inserting the row when there is none.\<close>

definition Gorm_UpdateProject :: "Project \<Rightarrow> DB \<Rightarrow> error option \<times> Project \<times> DB" where
  "Gorm_UpdateProject project db =
     (if Project_ID project = 0 then Gorm_CreateProject project db
      else (case next_failure db of
              (failed, db1) \<Rightarrow>
                if failed then (Some PersistenceFailure, project, db1)
                else if Project_ID project \<in> set (map Project_ID (projects db1))
                then (None, project,
                      db1\<lparr>projects := map (\<lambda>row. if Project_ID row = Project_ID project
                                                  then project else row) (projects db1)\<rparr>)
                else (None, project, db1\<lparr>projects := projects db1 @ [project]\<rparr>)))"

text \<open>\<open>DB.Where("name = ?", tagName).FirstOrCreate(&tag, Tag{Name: tagName})\<close>: the first
  row in primary-key order whose name is exactly \<open>tagName\<close>; when there is none, a new row
  with that name and a key from the hook.\<close>

fun first_by_pk :: "Tag list \<Rightarrow> Tag option" where
  "first_by_pk [] = None"
| "first_by_pk (row # rows) =
     (case first_by_pk rows of
        None \<Rightarrow> Some row
      | Some best \<Rightarrow> if Tag_ID best < Tag_ID row then Some best else Some row)"

definition Gorm_FindOrCreateTag :: "string \<Rightarrow> DB \<Rightarrow> (error + Tag) \<times> DB" where
  "Gorm_FindOrCreateTag tagName db =
     (case next_failure db of
        (failed, db1) \<Rightarrow>
          if failed then (Inl PersistenceFailure, db1)
          else (case first_by_pk (filter (\<lambda>row. Tag_Name row = tagName) (tags db1)) of
                  Some tag \<Rightarrow> (Inr tag, db1)
                | None \<Rightarrow>
                    (case uuid_New db1 of
                       (u, db2) \<Rightarrow>
                         if u \<in> set (map Tag_ID (tags db2))
                         then (Inl DuplicatedKey, db2)
                         else (Inr \<lparr>Tag_ID = u, Tag_Name = tagName\<rparr>,
                               db2\<lparr>tags := tags db2 @ [\<lparr>Tag_ID = u, Tag_Name = tagName\<rparr>]\<rparr>))))"

text \<open>\<open>Association("Tags").Append(tag)\<close>: the pair is inserted into the join table; a pair
  that is already there is left alone. (The tag the use cases pass has just been returned
  by \<open>FindOrCreateTag\<close>, so its own row exists.)\<close>

definition Gorm_AssociateTagWithProject :: "Project \<Rightarrow> Tag \<Rightarrow> DB \<Rightarrow> error option \<times> DB" where
  "Gorm_AssociateTagWithProject project tag db =
     (case next_failure db of
        (failed, db1) \<Rightarrow>
          if failed then (Some PersistenceFailure, db1)
          else if (Project_ID project, Tag_ID tag) \<in> set (project_tags db1)
          then (None, db1)
          else (None, db1\<lparr>project_tags := project_tags db1 @ [(Project_ID project, Tag_ID tag)]\<rparr>))"

text \<open>\<open>Association("Tags").Clear()\<close>: the join rows of the project are deleted; table
  \<open>tags\<close> is not touched.\<close>

definition Gorm_ClearProjectTags :: "Project \<Rightarrow> DB \<Rightarrow> error option \<times> DB" where
  "Gorm_ClearProjectTags project db =
     (case next_failure db of
        (failed, db1) \<Rightarrow>
          if failed then (Some PersistenceFailure, db1)
          else (None, db1\<lparr>project_tags :=
                  filter (\<lambda>row. fst row \<noteq> Project_ID project) (project_tags db1)\<rparr>))"

definition GormProjectRepository :: "DB ProjectRepository" where
  "GormProjectRepository =
     \<lparr> CreateProject = Gorm_CreateProject,
       UpdateProject = Gorm_UpdateProject,
       FindOrCreateTag = Gorm_FindOrCreateTag,
       AssociateTagWithProject = Gorm_AssociateTagWithProject,
       ClearProjectTags = Gorm_ClearProjectTags \<rparr>"

text \<open>
  The tags of a project as \<open>Preload("Tags")\<close> loads them: the join of the project's rows
  of \<open>project_tags\<close> with \<open>tags\<close>.
\<close>

definition Project_Tags :: "uuid \<Rightarrow> DB \<Rightarrow> Tag list" where
  "Project_Tags pid db =
     concat (map (\<lambda>row. if fst row = pid
                         then filter (\<lambda>tag. Tag_ID tag = snd row) (tags db) else [])
                 (project_tags db))"

text \<open>
  What the schema guarantees of every store state (the two primary keys) together with
  what find-or-create maintains when requests are served one after the other (no two tag
  rows of the same name).
\<close>

definition db_invariant :: "DB \<Rightarrow> bool" where
  "db_invariant db \<longleftrightarrow>
     distinct (map Tag_ID (tags db)) \<and> distinct (project_tags db) \<and>
     distinct (map Tag_Name (tags db))"

text \<open>
  What a run of the tag loop for project \<open>pid\<close> over names from \<open>names\<close> may have
  done to a store: appended tag rows, appended join rows of that project for tags named
  in \<open>names\<close>, and kept the invariant.
\<close>

definition tags_added :: "uuid \<Rightarrow> string set \<Rightarrow> DB \<Rightarrow> DB \<Rightarrow> bool" where
  "tags_added pid names db db' \<longleftrightarrow>
     (\<exists>new. tags db' = tags db @ new) \<and>
     (\<exists>added. project_tags db' = project_tags db @ added \<and>
        (\<forall>row \<in> set added. fst row = pid \<and>
           (\<exists>tag \<in> set (tags db'). Tag_ID tag = snd row \<and> Tag_Name tag \<in> names))) \<and>
     (db_invariant db \<longrightarrow> db_invariant db')"

text \<open>Some concrete values for the examples.\<close>

definition conversion_amd64 :: "float64 \<Rightarrow> int" where
  "conversion_amd64 x = - (2 ^ 63)"

definition db_empty :: DB where
  "db_empty = \<lparr> projects = [], tags = [], project_tags = [],
                failures = sconst False, uuids = siterate Suc 1 \<rparr>"

definition project_new :: Project where
  "project_new = \<lparr> Project_ID = 0, Project_OwnerID = 40,
                   Project_Title = ''site'', Project_Description = ''a site'' \<rparr>"

definition project_saved :: Project where
  "project_saved = \<lparr> Project_ID = 7, Project_OwnerID = 40,
                     Project_Title = ''site'', Project_Description = ''a site'' \<rparr>"

definition db_down :: DB where
  "db_down = db_empty\<lparr>failures := True ## sconst False\<rparr>"

definition db_flaky :: DB where
  "db_flaky = db_empty\<lparr>failures := False ## True ## False ## True ## sconst False\<rparr>"

definition db_tagged :: DB where
  "db_tagged = \<lparr> projects = [project_saved],
                 tags = [\<lparr>Tag_ID = 1, Tag_Name = ''go''\<rparr>],
                 project_tags = [(7, 1)],
                 failures = True ## sconst False,
                 uuids = siterate Suc 2 \<rparr>"

section \<open>Properties of the pagination calculator\<close>

lemma ilog2_lower: "0 < x \<Longrightarrow> 2 powi (ilog2 x) \<le> x"
proof (cases "x \<ge> 1")
  case True
  assume "0 < x"
  have p: "0 < \<lfloor>x\<rfloor>" using True by simp
  have b: "bitlen \<lfloor>x\<rfloor> - 1 \<ge> 0" using p bitlen_ge_iff_power[of 1 "\<lfloor>x\<rfloor>"] by simp
  have "(2::int) ^ nat (bitlen \<lfloor>x\<rfloor> - 1) \<le> \<lfloor>x\<rfloor>" using bitlen_bounds[OF p] by simp
  then have "(of_int ((2::int) ^ nat (bitlen \<lfloor>x\<rfloor> - 1)) :: rat) \<le> of_int \<lfloor>x\<rfloor>"
    by (simp only: of_int_le_iff)
  also have "\<dots> \<le> x" by simp
  finally have "(2::rat) ^ nat (bitlen \<lfloor>x\<rfloor> - 1) \<le> x" by simp
  then show ?thesis using True b by (simp add: ilog2_def power_int_def)
next
  case False
  assume x: "0 < x"
  define c where "c = \<lceil>1 / x\<rceil> - 1"
  have "1 / x > 1" using False x by simp
  then have c: "0 < c" unfolding c_def by linarith
  have "c < 2 ^ nat (bitlen c)" using bitlen_bounds[OF c] by simp
  then have "\<lceil>1 / x\<rceil> \<le> 2 ^ nat (bitlen c)" unfolding c_def by simp
  then have "1 / x \<le> of_int (2 ^ nat (bitlen c))" by (simp only: ceiling_le_iff)
  then have "1 / x \<le> 2 ^ nat (bitlen c)" by simp
  then have "1 \<le> x * 2 ^ nat (bitlen c)" using x by (simp add: pos_divide_le_eq mult.commute)
  then have "1 / 2 ^ nat (bitlen c) \<le> x" by (simp add: pos_divide_le_eq)
  moreover have "(2::rat) powi (- bitlen c) = 1 / 2 ^ nat (bitlen c)"
    using bitlen_nonneg[of c] by (simp add: power_int_minus power_int_def inverse_eq_divide power_divide)
  ultimately show ?thesis using False
    by (simp add: ilog2_def c_def)
qed

lemma ilog2_upper_ge1: "1 \<le> x \<Longrightarrow> x < 2 powi (ilog2 x + 1)"
proof -
  assume x: "1 \<le> x"
  have p: "0 < \<lfloor>x\<rfloor>" using x by simp
  have "\<lfloor>x\<rfloor> < 2 ^ nat (bitlen \<lfloor>x\<rfloor>)" using bitlen_bounds[OF p] by simp
  then have "\<lfloor>x\<rfloor> + 1 \<le> 2 ^ nat (bitlen \<lfloor>x\<rfloor>)" by simp
  then have "(of_int (\<lfloor>x\<rfloor> + 1) :: rat) \<le> of_int (2 ^ nat (bitlen \<lfloor>x\<rfloor>))"
    by (simp only: of_int_le_iff)
  moreover have "x < of_int (\<lfloor>x\<rfloor> + 1)" by linarith
  ultimately have "x < 2 ^ nat (bitlen \<lfloor>x\<rfloor>)" by simp
  moreover have "bitlen \<lfloor>x\<rfloor> \<ge> 0" by (rule bitlen_nonneg)
  ultimately show ?thesis using x by (simp add: ilog2_def power_int_def)
qed

lemma round_even_bounds: "\<lfloor>x\<rfloor> \<le> round_even x" "round_even x \<le> \<lceil>x\<rceil>"
  unfolding round_even_def Let_def by (auto simp: ceiling_altdef)

lemma round_even_of_int [simp]: "round_even (of_int m) = m"
  by (simp add: round_even_def)

lemma round_even_above_half:
  assumes "of_int m + 1 / 2 < x"
  shows "m + 1 \<le> round_even x"
proof (cases "m + 1 \<le> \<lfloor>x\<rfloor>")
  case True
  then show ?thesis using round_even_bounds(1)[of x] by linarith
next
  case False
  have "m \<le> \<lfloor>x\<rfloor>" using assms by linarith
  then have f: "\<lfloor>x\<rfloor> = m" using False by linarith
  have "x - of_int \<lfloor>x\<rfloor> > 1 / 2" using assms f by simp
  then show ?thesis using f by (simp add: round_even_def Let_def)
qed


lemma powi_nonneg_int: "0 \<le> e \<Longrightarrow> (2::rat) powi e = of_int (2 ^ nat e)"
  by (simp add: power_int_def)

lemma powi_pos: "0 < (2::rat) powi e"
  by (simp add: zero_less_power_int)

lemma ilog2_less_53:
  assumes "0 < x" "x < 2 ^ 53"
  shows "ilog2 x < 53"
proof -
  have "2 powi (ilog2 x) \<le> x" by (rule ilog2_lower[OF assms(1)])
  then have "(2::rat) powi (ilog2 x) < 2 ^ 53" using assms(2) by (rule le_less_trans)
  moreover have "(2::rat) ^ 53 = 2 powi 53" by (simp add: power_int_def)
  ultimately have "(2::rat) powi (ilog2 x) < 2 powi 53" by simp
  then show ?thesis by (rule power_int_le_imp_less_exp[rotated]) simp_all
qed

lemma float64_round_exact:
  assumes "0 < x" "x < 2 ^ 53" "x = of_int n"
  shows "float64_round x = x"
proof -
  define e where "e = ilog2 \<bar>x\<bar> - 52"
  have "ilog2 x < 53" by (rule ilog2_less_53[OF assms(1,2)])
  then have e: "e \<le> 0" using assms(1) by (simp add: e_def)
  have "x / 2 powi e = x * 2 powi (- e)" by (simp add: power_int_minus field_simps)
  also have "\<dots> = of_int (n * 2 ^ nat (- e))" using e assms(3) by (simp add: powi_nonneg_int)
  finally have "round_even (x / 2 powi e) = n * 2 ^ nat (- e)" by (simp only: round_even_of_int)
  then have "of_int (round_even (x / 2 powi e)) * 2 powi e = x * 2 powi (- e) * 2 powi e"
    using e assms(3) by (simp add: powi_nonneg_int)
  also have "\<dots> = x" by (simp add: power_int_minus)
  finally show ?thesis using assms(1) by (simp add: float64_round_def e_def Let_def)
qed

lemma float64_of_int_exact: "0 \<le> n \<Longrightarrow> n < 2 ^ 53 \<Longrightarrow> float64_of_int n = of_int n"
proof (cases "n = 0")
  case True
  then show ?thesis by (simp add: float64_of_int_def float64_round_def)
next
  case False
  assume "0 \<le> n" "n < 2 ^ 53"
  then have "0 < (of_int n :: rat)" "(of_int n :: rat) < 2 ^ 53" using False by simp_all
  then show ?thesis unfolding float64_of_int_def by (rule float64_round_exact) simp
qed

lemma float64_round_between:
  assumes k: "0 \<le> k" and lt: "of_int k < x" and le: "x \<le> of_int k + 1" and b: "x < 2 ^ 53"
    and gap: "2 powi (ilog2 x - 53) < x - of_int k"
  shows "of_int k < float64_round x \<and> float64_round x \<le> of_int k + 1"
proof -
  have "(0::rat) \<le> of_int k" using k by simp
  then have x: "0 < x" using lt by (rule le_less_trans)
  define e where "e = ilog2 \<bar>x\<bar> - 52"
  have e': "e = ilog2 x - 52" using x by (simp add: e_def)
  have "ilog2 x < 53" by (rule ilog2_less_53[OF x b])
  then have e: "e \<le> 0" by (simp add: e')
  define s where "s = nat (- e)"
  have ps: "(2::rat) powi e = 1 / 2 ^ s" "x / 2 powi e = x * 2 ^ s"
    using e by (simp_all add: s_def power_int_def power_divide inverse_eq_divide)
  define Q where "Q = x * 2 ^ s"
  have "float64_round x = of_int (round_even (x / 2 powi e)) * 2 powi e"
    using x by (simp add: float64_round_def e' Let_def)
  then have fl: "float64_round x = of_int (round_even Q) / 2 ^ s"
    by (simp only: ps Q_def) simp
  have "(x - of_int k) * 2 ^ s > 2 powi (ilog2 x - 53) * 2 ^ s"
    using gap by simp
  moreover have "(2::rat) powi (ilog2 x - 53) * 2 ^ s = 1 / 2"
  proof -
    have "(2::rat) ^ s = 2 powi (- e)" using e by (simp add: s_def power_int_def)
    then have "(2::rat) powi (ilog2 x - 53) * 2 ^ s = 2 powi (ilog2 x - 53 + (- e))"
      using power_int_add[of "2::rat" "ilog2 x - 53" "- e"] by simp
    also have "\<dots> = 2 powi (- 1)" by (simp add: e')
    finally show ?thesis by simp
  qed
  ultimately have "of_int (k * 2 ^ s) + 1 / 2 < Q" by (simp add: Q_def algebra_simps)
  then have lo: "k * 2 ^ s + 1 \<le> round_even Q" by (rule round_even_above_half)
  have "Q \<le> of_int ((k + 1) * 2 ^ s)" using le by (simp add: Q_def)
  then have "\<lceil>Q\<rceil> \<le> (k + 1) * 2 ^ s" by (simp only: ceiling_le_iff)
  then have hi: "round_even Q \<le> (k + 1) * 2 ^ s" using round_even_bounds(2)[of Q] by linarith
  have "(of_int (k * 2 ^ s + 1) :: rat) \<le> of_int (round_even Q)"
    using lo by (simp only: of_int_le_iff)
  then have "(of_int k :: rat) * 2 ^ s < of_int (round_even Q)" by simp
  then have 1: "of_int k < float64_round x" by (simp add: fl pos_less_divide_eq)
  have "(of_int (round_even Q) :: rat) \<le> of_int ((k + 1) * 2 ^ s)" using hi by (simp only: of_int_le_iff)
  then have 2: "float64_round x \<le> of_int k + 1" by (simp add: fl pos_divide_le_eq)
  show ?thesis using 1 2 by simp
qed


lemma float64_round_large:
  assumes "2 ^ 53 \<le> x"
  shows "2 ^ 53 \<le> float64_round x"
proof -
  have x1: "1 \<le> x" using assms by (rule order_trans[rotated]) simp
  have x: "0 < x" using x1 by simp
  define e where "e = ilog2 x - 52"
  have "x < 2 powi (ilog2 x + 1)" by (rule ilog2_upper_ge1[OF x1])
  with assms have "(2::rat) ^ 53 < 2 powi (ilog2 x + 1)" by (rule le_less_trans)
  moreover have "(2::rat) ^ 53 = 2 powi 53" by (simp add: power_int_def)
  ultimately have "(2::rat) powi 53 < 2 powi (ilog2 x + 1)" by simp
  then have "53 < ilog2 x + 1"
    by (rule power_int_le_imp_less_exp[rotated]) (use x1 in \<open>simp_all add: ilog2_def bitlen_nonneg\<close>)
  then have e: "1 \<le> e" by (simp add: e_def)
  have "2 powi (ilog2 x) \<le> x" by (rule ilog2_lower[OF x])
  moreover have "(2::rat) powi (ilog2 x) = 2 powi 52 * 2 powi e"
    using power_int_add[of "2::rat" 52 e] by (simp add: e_def)
  ultimately have "2 powi 52 * 2 powi e \<le> x" by simp
  then have "(2::rat) powi 52 \<le> x / 2 powi e" by (simp add: pos_le_divide_eq powi_pos)
  moreover have "(2::rat) powi 52 = of_int (2 ^ 52)" by (simp add: power_int_def)
  ultimately have "(of_int (2 ^ 52) :: rat) \<le> x / 2 powi e" by simp
  then have "2 ^ 52 \<le> \<lfloor>x / 2 powi e\<rfloor>" by (simp only: le_floor_iff)
  then have "2 ^ 52 \<le> round_even (x / 2 powi e)"
    using round_even_bounds(1)[of "x / 2 powi e"] by linarith
  then have "(of_int (2 ^ 52) :: rat) \<le> of_int (round_even (x / 2 powi e))" by (simp only: of_int_le_iff)
  then have r: "(2::rat) ^ 52 \<le> of_int (round_even (x / 2 powi e))" by simp
  have "(2::rat) powi 1 \<le> 2 powi e" using e by (intro power_int_increasing) simp_all
  then have p: "(2::rat) \<le> 2 powi e" by simp
  have "(2::rat) ^ 52 * 2 \<le> of_int (round_even (x / 2 powi e)) * 2 powi e"
    using r p by (intro mult_mono) simp_all
  then show ?thesis using x by (simp add: float64_round_def e_def Let_def)
qed

lemma half_ulp_bound:
  assumes "0 < q"
  shows "2 powi (ilog2 q - 53) \<le> q / 2 ^ 53"
proof -
  have "(2::rat) powi (ilog2 q - 53) = 2 powi (ilog2 q) * 2 powi (- 53)"
    using power_int_add[of "2::rat" "ilog2 q" "- 53"] by simp
  also have "(2::rat) powi (- 53) = 1 / 2 ^ 53"
    by (simp add: power_int_def power_divide inverse_eq_divide)
  finally have "(2::rat) powi (ilog2 q - 53) = 2 powi (ilog2 q) / 2 ^ 53" by simp
  moreover have "2 powi (ilog2 q) / 2 ^ 53 \<le> q / 2 ^ 53"
    using ilog2_lower[OF assms] by (intro divide_right_mono) simp_all
  ultimately show ?thesis by simp
qed

lemma ceiling_float64_round:
  assumes k: "0 \<le> k" and lt: "of_int k < x" and le: "x \<le> of_int k + 1" and b: "x < 2 ^ 53"
    and gap: "x / 2 ^ 53 < x - of_int k"
  shows "\<lceil>float64_round x\<rceil> = k + 1"
proof -
  have "(0::rat) \<le> of_int k" using k by simp
  then have x: "0 < x" using lt by (rule le_less_trans)
  have "2 powi (ilog2 x - 53) < x - of_int k"
    using half_ulp_bound[OF x] gap by (rule le_less_trans)
  then have "of_int k < float64_round x \<and> float64_round x \<le> of_int k + 1"
    by (rule float64_round_between[OF k lt le b])
  then show ?thesis by (simp add: ceiling_eq_iff)
qed

lemma ceil_float_quotient_small:
  assumes a: "0 < a" "a < 2 ^ 53" and b: "1 \<le> b"
  shows "\<lceil>float64_round (of_int a / of_int b)\<rceil> = \<lceil>(of_int a / of_int b :: rat)\<rceil>"
proof -
  define q :: rat where "q = of_int a / of_int b"
  define k where "k = \<lceil>q\<rceil> - 1"
  have bp: "(0::rat) < of_int b" using b by simp
  have qpos: "0 < q" unfolding q_def using a(1) bp by simp
  have "q \<le> of_int a" unfolding q_def using a(1) b
    by (simp add: divide_le_eq mult_le_cancel_left1)
  moreover have "(of_int a :: rat) < of_int ((2::int) ^ 53)" using a(2) by (simp only: of_int_less_iff)
  ultimately have q53: "q < 2 ^ 53" by simp
  have k0: "0 \<le> k" unfolding k_def using qpos by (simp add: le_ceiling_iff[symmetric, of 1 q, simplified])
  show ?thesis
  proof (cases "q = of_int \<lceil>q\<rceil>")
    case True
    have "float64_round q = q" by (rule float64_round_exact[OF qpos q53 True])
    then show ?thesis unfolding q_def[symmetric] by simp
  next
    case False
    have lt: "of_int k < q" unfolding k_def by linarith
    have le: "q \<le> of_int k + 1" unfolding k_def by simp
    have "of_int k * of_int b < (of_int a :: rat)"
      using lt bp by (simp add: q_def pos_less_divide_eq)
    then have "(of_int (k * b) :: rat) < of_int a" by simp
    then have "k * b < a" by (simp only: of_int_less_iff)
    then have "k * b + 1 \<le> a" by simp
    then have "(of_int (k * b + 1) :: rat) \<le> of_int a" by (simp only: of_int_le_iff)
    then have "of_int k * of_int b + 1 \<le> (of_int a :: rat)" by simp
    then have "1 \<le> (of_int a - of_int k * of_int b :: rat)" by simp
    then have "1 / of_int b \<le> (of_int a - of_int k * of_int b) / (of_int b :: rat)"
      using bp by (intro divide_right_mono) simp_all
    also have "\<dots> = q - of_int k" using bp by (simp add: q_def diff_divide_distrib)
    finally have g1: "1 / of_int b \<le> q - of_int k" .
    have "q / 2 ^ 53 < 1 / of_int b"
    proof -
      have "q / 2 ^ 53 = (of_int a / 2 ^ 53) / of_int b" by (simp add: q_def)
      also have "\<dots> < 1 / of_int b"
        using bp \<open>(of_int a :: rat) < of_int ((2::int) ^ 53)\<close>
        by (intro divide_strict_right_mono) simp_all
      finally show ?thesis .
    qed
    then have gap: "q / 2 ^ 53 < q - of_int k" using g1 by (rule less_le_trans)
    have "\<lceil>float64_round q\<rceil> = k + 1"
      by (rule ceiling_float64_round[OF k0 lt le q53 gap])
    then show ?thesis unfolding q_def[symmetric] by (simp add: k_def)
  qed
qed

lemma ceil_float_quotient_large:
  assumes a: "0 < a" "a < 2 ^ 53" and Y: "2 ^ 53 \<le> Y"
  shows "\<lceil>float64_round (of_int a / Y)\<rceil> = 1"
proof -
  define q :: rat where "q = of_int a / Y"
  have "(0::rat) < 2 ^ 53" by simp
  then have Yp: "0 < Y" using Y by (rule less_le_trans)
  have qpos: "0 < q" unfolding q_def using a(1) Yp by simp
  have "(of_int a :: rat) < of_int ((2::int) ^ 53)" using a(2) by (simp only: of_int_less_iff)
  then have "(of_int a :: rat) < 2 ^ 53" by simp
  then have aY: "of_int a < Y" using Y by (rule less_le_trans)
  then have q1: "q < 1" unfolding q_def using Yp by (simp add: pos_divide_less_eq)
  have "(1::rat) \<le> 2 ^ 53" by simp
  with q1 have q53: "q < 2 ^ 53" by (rule less_le_trans)
  have "q / 2 ^ 53 < q / 1"
    using qpos by (intro divide_strict_left_mono) simp_all
  then have gap: "q / 2 ^ 53 < q - of_int 0" by simp
  have "\<lceil>float64_round q\<rceil> = 0 + 1"
    by (rule ceiling_float64_round[OF _ _ _ q53 gap]) (use qpos q1 in simp_all)
  then show ?thesis unfolding q_def by simp
qed

lemma ceil_div_exact:
  assumes a: "0 \<le> a" "a < 2 ^ 53" and b: "1 \<le> b"
  shows "ceil_div impl a b = - ((- a) div b)"
proof -
  have A: "float64_of_int a = of_int a" by (rule float64_of_int_exact[OF a])
  define Y where "Y = float64_of_int b"
  define c where "c = - ((- a) div b)"
  have cr: "c = \<lceil>(of_int a / of_int b :: rat)\<rceil>"
    unfolding c_def by (simp only: ceiling_divide_eq_div)
  have key: "Y \<noteq> 0 \<and> \<lceil>float64_round (of_int a / Y)\<rceil> = c"
  proof (cases "b < 2 ^ 53")
    case True
    have Yb: "Y = of_int b" unfolding Y_def using b True by (intro float64_of_int_exact) simp_all
    have Y0: "Y \<noteq> 0" using Yb b by simp
    show ?thesis
    proof (cases "a = 0")
      case True
      then show ?thesis using Y0 by (simp add: float64_round_def c_def)
    next
      case False
      then have "0 < a" using a(1) by simp
      then show ?thesis using Y0 unfolding Yb cr by (simp add: ceil_float_quotient_small[OF _ a(2) b])
    qed
  next
    case False
    then have b53: "(2::int) ^ 53 \<le> b" by simp
    then have "(of_int ((2::int) ^ 53) :: rat) \<le> of_int b" by (simp only: of_int_le_iff)
    then have "(2::rat) ^ 53 \<le> of_int b" by simp
    then have Y53: "2 ^ 53 \<le> Y" unfolding Y_def float64_of_int_def by (rule float64_round_large)
    have "(0::rat) < 2 ^ 53" by simp
    then have "0 < Y" using Y53 by (rule less_le_trans)
    then have Y0: "Y \<noteq> 0" by simp
    show ?thesis
    proof (cases "a = 0")
      case True
      then show ?thesis using Y0 by (simp add: float64_round_def c_def)
    next
      case False
      then have ap: "0 < a" using a(1) by simp
      have ab: "a < b" using a(2) b53 by simp
      have "(0::rat) < of_int a / of_int b" using ap b by simp
      moreover have "(of_int a / of_int b :: rat) \<le> 1" using ab b by (simp add: divide_le_eq)
      ultimately have "\<lceil>(of_int a / of_int b :: rat)\<rceil> = 1" by (simp add: ceiling_eq_iff)
      then show ?thesis using Y0 unfolding cr by (simp add: ceil_float_quotient_large[OF ap a(2) Y53])
    qed
  qed
  have cd: "ceil_div impl a b = int_of_float64 impl (Finite (of_int c))"
    using key by (simp add: ceil_div_def A Y_def[symmetric] float64_div_def)
  have "(0::rat) \<le> of_int a / of_int b" using a b by simp
  then have "(- 1::rat) < of_int a / of_int b" by linarith
  then have c0: "0 \<le> c" unfolding cr by simp
  have "(of_int a / of_int b :: rat) \<le> of_int a" using a b by (simp add: divide_le_eq mult_le_cancel_left1)
  then have "c \<le> a" unfolding cr by (simp add: ceiling_le_iff)
  then have "is_int64 c" using c0 a by (simp add: is_int64_def)
  then show ?thesis using c0 by (simp add: cd c_def[symmetric])
qed


lemma bitlen_2_53_1: "bitlen 9007199254740993 = 54"
  using bitlen_twopow_add_eq[of 1 53] by simp

lemma bitlen_2_53: "bitlen 9007199254740992 = 54"
  using bitlen_twopow_add_eq[of 0 53] by simp

lemma round_even_tie: "round_even (9007199254740993 / 2) = 4503599627370496"
proof -
  have "\<lfloor>(of_int 9007199254740993 / of_int 2 :: rat)\<rfloor> = 9007199254740993 div 2"
    by (rule floor_divide_of_int_eq)
  then have f: "\<lfloor>(9007199254740993 / 2 :: rat)\<rfloor> = 4503599627370496" by simp
  show ?thesis unfolding round_even_def Let_def f by simp
qed

lemma round_even_2_52: "round_even 4503599627370496 = 4503599627370496"
  using round_even_of_int[of 4503599627370496] by simp

lemma float64_round_2_53_1: "float64_round 9007199254740993 = 9007199254740992"
proof -
  have "ilog2 \<bar>9007199254740993\<bar> = 53" by (simp add: ilog2_def bitlen_2_53_1)
  then show ?thesis
    unfolding float64_round_def Let_def by (simp add: round_even_tie)
qed

lemma float64_round_2_53: "float64_round 9007199254740992 = 9007199254740992"
proof -
  have "ilog2 \<bar>9007199254740992\<bar> = 53" by (simp add: ilog2_def bitlen_2_53)
  then show ?thesis
    unfolding float64_round_def Let_def by (simp add: round_even_2_52)
qed

lemma float64_round_1: "float64_round 1 = 1"
  using float64_round_exact[of 1 1] by simp

lemma ceil_div_rounds: "ceil_div impl (2 ^ 53 + 1) 1 = 2 ^ 53"
proof -
  have a: "float64_of_int (2 ^ 53 + 1) = 9007199254740992"
    by (simp add: float64_of_int_def float64_round_2_53_1)
  have b: "float64_of_int 1 = 1" by (simp add: float64_of_int_def float64_round_1)
  have d: "float64_div 9007199254740992 1 = Finite 9007199254740992"
    by (simp add: float64_div_def float64_round_2_53)
  show ?thesis unfolding ceil_div_def a b d by (simp add: is_int64_def)
qed

lemma ceil_div_by_zero: "ceil_div impl 5 0 = impl PosInf"
proof -
  have a: "float64_of_int 5 = 5" using float64_of_int_exact[of 5] by simp
  have b: "float64_of_int 0 = 0" by (simp add: float64_of_int_def float64_round_def)
  have d: "float64_div 5 0 = PosInf" by (simp add: float64_div_def)
  show ?thesis unfolding ceil_div_def a b d by simp
qed

lemma ceil_div_eq:
  "0 \<le> a \<and> a < 2 ^ 53 \<and> 1 \<le> b \<Longrightarrow> ceil_div impl a b = - ((- a) div b)"
  by (simp add: ceil_div_exact)

lemma ceil_div_real:
  assumes "0 \<le> a" "a < 2 ^ 53" "1 \<le> b"
  shows "ceil_div impl a b = \<lceil>real_of_int a / real_of_int b\<rceil>"
  unfolding ceil_div_exact[OF assms] by (simp only: ceiling_divide_eq_div)

lemma ceil_div_zero: "1 \<le> b \<Longrightarrow> ceil_div impl 0 b = 0"
  by (simp add: ceil_div_exact)

lemma ceil_div_pos:
  assumes "0 < a" "a < 2 ^ 53" "1 \<le> b"
  shows "1 \<le> ceil_div impl a b"
proof -
  have "0 < real_of_int a / real_of_int b" using assms by simp
  then have "1 \<le> \<lceil>real_of_int a / real_of_int b\<rceil>" by linarith
  then show ?thesis using assms by (simp add: ceil_div_real)
qed

lemma ceil_div_le:
  assumes "0 \<le> a" "a < 2 ^ 53" "1 \<le> b"
  shows "ceil_div impl a b \<le> a"
proof -
  have "real_of_int a / real_of_int b \<le> real_of_int a"
    using assms by (simp add: divide_le_eq mult_le_cancel_left1)
  then have "\<lceil>real_of_int a / real_of_int b\<rceil> \<le> a" by (simp add: ceiling_le_iff)
  then show ?thesis by (simp add: ceil_div_real[OF assms])
qed

lemma ceil_div_nonneg:
  assumes "0 \<le> a" "a < 2 ^ 53" "1 \<le> b"
  shows "0 \<le> ceil_div impl a b"
  using ceil_div_pos[of a b impl] ceil_div_zero[of b impl] assms by (cases "a = 0") auto

lemma int64_id: "is_int64 x \<Longrightarrow> int64 x = x"
  by (simp add: is_int64_def int64_def)

lemma is_int64_int64: "is_int64 (int64 x)"
  by (simp add: is_int64_def int64_def)

lemma is_int64_Atoi: "is_int64 (Atoi s)"
  by (auto simp: Atoi_def ParseInt_def is_int64_def Let_def
      split: option.splits prod.splits num_error.splits)

lemmas Atoi_eval = Atoi_def ParseInt_def ParseUint_def maxUint64_def is_digit_def Let_def

lemma Atoi_syntax: "Atoi ''12x'' = 0"
  by (simp add: Atoi_eval)

lemma Atoi_range_first: "Atoi ''99999999999999999999x'' = 2 ^ 63 - 1"
  by (simp add: Atoi_eval)

lemma customRange_loop_upto: "customRange_loop i e acc = acc @ [i..e]"
  apply (induction i e acc rule: customRange_loop.induct)
  apply (subst customRange_loop.simps)
  apply (auto simp: upto_rec1)
  done

lemma filter_upto: "filter (\<lambda>i. l \<le> i \<and> i \<le> h) [a..b] = [max a l..min b h]"
proof (rule sorted_distinct_set_unique)
  show "sorted (filter (\<lambda>i. l \<le> i \<and> i \<le> h) [a..b])" by (simp add: sorted_wrt_filter)
  show "set (filter (\<lambda>i. l \<le> i \<and> i \<le> h) [a..b]) = set [max a l..min b h]" by auto
qed simp_all




lemma Paginate_page_TotalPages: "TotalPages (Paginate_page impl p ti ipp) = ceil_div impl ti ipp"
  unfolding Paginate_page_def
  by (simp only: Let_def case_prod_beta PaginationData.simps)

lemma Paginate_page_Current:
  "CurrentPageNumber (Paginate_page impl p ti ipp) = clamp_page p (ceil_div impl ti ipp)"
  unfolding Paginate_page_def clamp_page_def
  by (simp only: Let_def case_prod_beta PaginationData.simps)

lemma Paginate_page_CustomRange:
  "CustomRange (Paginate_page impl p ti ipp) = window_of (clamp_page p (ceil_div impl ti ipp)) (ceil_div impl ti ipp)"
  unfolding Paginate_page_def window_of_def clamp_page_def
  by (simp only: Let_def case_prod_beta PaginationData.simps)


lemma clamp_page_ge1: "1 \<le> clamp_page p tp"
  by (simp add: clamp_page_def Let_def)

lemma clamp_page_le: "0 < tp \<Longrightarrow> clamp_page p tp \<le> tp"
  by (simp add: clamp_page_def Let_def)

lemma clamp_page_zero: "clamp_page p 0 = max p 1"
  by (simp add: clamp_page_def Let_def max_def)

lemma clamp_page_int64: "is_int64 p \<Longrightarrow> tp < 2 ^ 63 \<Longrightarrow> clamp_page p tp < 2 ^ 63"
  by (simp add: clamp_page_def Let_def is_int64_def)

lemma window_of_zero:
  assumes "1 \<le> page" "page < 2 ^ 63"
  shows "window_of page 0 = []"
proof -
  have s: "sub64 page 2 = page - 2"
    using assms by (simp add: sub64_def int64_id is_int64_def)
  define e where "e = (if add64 page 2 > 0 then 0 else add64 page 2)"
  have e: "e \<le> 0" by (simp add: e_def)
  define st where "st = (if page - 2 < 1 then 1 else page - 2)"
  have st: "1 \<le> st" by (simp add: st_def)
  have "window_of page 0 = customRange_loop st e []"
    unfolding window_of_def s e_def st_def by (simp add: Let_def)
  also have "\<dots> = []" using e st by (simp add: customRange_loop_upto)
  finally show ?thesis .
qed

lemma spec_window_zero: "spec_window page 0 = []"
  by (simp add: spec_window_def filter_upto)

lemma window_of_pos:
  assumes "1 \<le> page" "page \<le> totalPages" "totalPages < 2 ^ 53"
  shows "window_of page totalPages = spec_window page totalPages"
proof -
  define lo where "lo = max (page - 2) 1"
  define hi where "hi = min (page + 2) totalPages"
  have lohi: "1 \<le> lo" "lo \<le> page" "page \<le> hi" "hi \<le> totalPages" "page - 2 \<le> lo" "hi \<le> page + 2"
    using assms by (auto simp: lo_def hi_def)
  have big: "totalPages < 2 ^ 62" using assms(3) by (rule less_trans) simp
  have s0: "sub64 page 2 = page - 2" and e0: "add64 page 2 = page + 2"
    using assms big by (simp_all add: sub64_def add64_def int64_id is_int64_def)
  have s1: "(if page - 2 < 1 then 1 else page - 2) = lo" by (simp add: lo_def max_def)
  have e1: "(if page + 2 > totalPages then totalPages else page + 2) = hi" by (simp add: hi_def min_def)
  have d: "add64 (sub64 hi lo) 1 = hi - lo + 1"
    using lohi assms big by (simp add: sub64_def add64_def int64_id is_int64_def)
  have t4: "5 \<le> totalPages \<Longrightarrow> sub64 totalPages 4 = totalPages - 4"
    using big by (simp add: sub64_def int64_id is_int64_def)
  have w: "filter (\<lambda>i. 1 \<le> i \<and> i \<le> totalPages) [page - 2..page + 2] = [lo..hi]"
    by (simp add: filter_upto lo_def hi_def)
  have lh: "lo \<le> hi" using lohi by simp
  have ne: "[lo..hi] \<noteq> []" using lh by simp
  have hd: "hd [lo..hi] = lo" using lh by (simp add: upto_rec1[of lo hi])
  have la: "last [lo..hi] = hi" using lh by (simp add: upto_rec2[of lo hi])
  have len: "(length [lo..hi] < 5) = (hi - lo + 1 < 5)" using lh by (simp add: nat_less_iff)
  have L: "window_of page totalPages =
        (if hi - lo + 1 < 5 \<and> 5 \<le> totalPages
         then (if lo = 1 then [lo..5] else if hi = totalPages then [totalPages - 4..hi] else [lo..hi])
         else [lo..hi])"
    unfolding window_of_def s0 e0 s1 e1 Let_def d using t4 by (simp add: customRange_loop_upto)
  have R: "spec_window page totalPages =
        (if hi - lo + 1 < 5 \<and> 5 \<le> totalPages
         then (if lo = 1 then [lo..5] else if hi = totalPages then [totalPages - 4..hi] else [lo..hi])
         else [lo..hi])"
    unfolding spec_window_def w Let_def len hd la using ne by simp
  show ?thesis by (simp only: L R)
qed

lemma ceil_div_least:
  assumes "0 \<le> a" "a < 2 ^ 53" "1 \<le> b"
  shows "a \<le> ceil_div impl a b * b" and "(ceil_div impl a b - 1) * b < a"
proof -
  define c where "c = ceil_div impl a b"
  have c: "c = \<lceil>real_of_int a / real_of_int b\<rceil>" unfolding c_def by (rule ceil_div_real[OF assms])
  have b: "0 < real_of_int b" using assms by simp
  have "real_of_int a / real_of_int b \<le> of_int c"
    unfolding c by (rule le_of_int_ceiling)
  then have "real_of_int a \<le> of_int c * real_of_int b"
    using b by (simp add: pos_divide_le_eq)
  then have "real_of_int a \<le> real_of_int (c * b)" by simp
  then show "a \<le> ceil_div impl a b * b" unfolding c_def by (simp only: of_int_le_iff)
  have "of_int c - 1 < real_of_int a / real_of_int b"
    unfolding c by linarith
  then have "(of_int c - 1) * real_of_int b < real_of_int a"
    using b by (simp add: pos_less_divide_eq)
  then have "real_of_int ((c - 1) * b) < real_of_int a" by simp
  then show "(ceil_div impl a b - 1) * b < a" unfolding c_def by (simp only: of_int_less_iff)
qed

lemma ceil_div_zero_iff:
  assumes "0 \<le> a" "a < 2 ^ 53" "1 \<le> b"
  shows "ceil_div impl a b = 0 \<longleftrightarrow> a = 0"
  using ceil_div_pos[of a b impl] ceil_div_zero[of b impl] assms by (cases "a = 0") auto

lemma ceil_div_bound:
  assumes "0 \<le> a" "a < 2 ^ 53" "1 \<le> b"
  shows "ceil_div impl a b < 2 ^ 53"
  using ceil_div_le[OF assms, of impl] assms(2) by simp

lemma Paginate_window:
  assumes "0 \<le> ti" "ti < 2 ^ 53" "1 \<le> ipp" "is_int64 p"
  shows "CustomRange (Paginate_page impl p ti ipp) = spec_window (clamp_page p (ceil_div impl ti ipp)) (ceil_div impl ti ipp)"
proof (cases "ceil_div impl ti ipp = 0")
  case True
  have "clamp_page p 0 < 2 ^ 63" by (rule clamp_page_int64[OF assms(4)]) simp
  then have "window_of (clamp_page p 0) 0 = []"
    by (rule window_of_zero[OF clamp_page_ge1])
  then show ?thesis
    by (simp add: Paginate_page_CustomRange True spec_window_zero)
next
  case False
  then have pos: "0 < ceil_div impl ti ipp" using ceil_div_nonneg[OF assms(1-3), of impl] by simp
  have b: "ceil_div impl ti ipp < 2 ^ 53" by (rule ceil_div_bound[OF assms(1-3)])
  show ?thesis
    unfolding Paginate_page_CustomRange
    by (rule window_of_pos[OF clamp_page_ge1 clamp_page_le[OF pos] b])
qed

lemma spec_window_interval:
  assumes "1 \<le> page" "page \<le> tp"
  shows "\<exists>a b. spec_window page tp = [a..b] \<and> 1 \<le> a \<and> b \<le> tp"
proof -
  define lo where "lo = max (page - 2) 1"
  define hi where "hi = min (page + 2) tp"
  have w: "filter (\<lambda>i. 1 \<le> i \<and> i \<le> tp) [page - 2..page + 2] = [lo..hi]"
    by (simp add: filter_upto lo_def hi_def)
  have lh: "1 \<le> lo" "lo \<le> hi" "hi \<le> tp" using assms by (auto simp: lo_def hi_def)
  have hd: "hd [lo..hi] = lo" using lh by (simp add: upto_rec1[of lo hi])
  have la: "last [lo..hi] = hi" using lh by (simp add: upto_rec2[of lo hi])
  have "spec_window page tp = [lo..hi] \<or> (5 \<le> tp \<and> lo = 1 \<and> spec_window page tp = [lo..5])
        \<or> (5 \<le> tp \<and> hi = tp \<and> spec_window page tp = [tp - 4..hi])"
    unfolding spec_window_def w Let_def hd la by auto
  then show ?thesis using lh by fastforce
qed

lemma upto_consecutive: "Suc k < length [a..b] \<Longrightarrow> [a..b] ! Suc k = [a..b] ! k + 1"
  by (simp add: nat_less_iff)


text \<open>
  Claim C1 as stated, that the current page always lies between 1 and
  \<open>max totalPages 1\<close>, fails when there are no items: the request \<open>?page=5\<close> over an
  empty result keeps page 5 although \<open>totalPages\<close> is 0, because the upper clamp is
  guarded by \<open>totalPages > 0\<close>.
\<close>
theorem Paginate_empty_result_counterexample:
  "\<not> (1 \<le> CurrentPageNumber (Paginate conversion_amd64 [(''page'', ''5'')] 0 3) \<and>
      CurrentPageNumber (Paginate conversion_amd64 [(''page'', ''5'')] 0 3)
        \<le> max (TotalPages (Paginate conversion_amd64 [(''page'', ''5'')] 0 3)) 1)"
  by (simp add: Paginate_def Paginate_page_Current Paginate_page_TotalPages DefaultQuery_def
      Atoi_eval ceil_div_eq clamp_page_def)

text \<open>
  Claim C1, amended. For \<open>totalItems \<ge> 0\<close> and \<open>itemsPerPage \<ge> 1\<close> and every
  request: the current page is at least 1; when there is at least one page it is at most
  \<open>totalPages\<close>; when there is none (exactly when \<open>totalItems = 0\<close>) it is not clamped
  from above and equals the larger of the requested page and 1.
\<close>
theorem Paginate_current_page:
  assumes "0 \<le> totalItems" "totalItems < 2 ^ 53" "1 \<le> itemsPerPage"
  shows "1 \<le> CurrentPageNumber (Paginate impl c totalItems itemsPerPage) \<and>
         (0 < TotalPages (Paginate impl c totalItems itemsPerPage) \<longrightarrow>
            CurrentPageNumber (Paginate impl c totalItems itemsPerPage)
              \<le> TotalPages (Paginate impl c totalItems itemsPerPage)) \<and>
         (TotalPages (Paginate impl c totalItems itemsPerPage) = 0 \<longrightarrow>
            CurrentPageNumber (Paginate impl c totalItems itemsPerPage)
              = max (Atoi (DefaultQuery c ''page'' ''1'')) 1) \<and>
         (TotalPages (Paginate impl c totalItems itemsPerPage) = 0 \<longleftrightarrow> totalItems = 0)"
  using assms
  by (simp add: Paginate_def Paginate_page_Current Paginate_page_TotalPages clamp_page_ge1
      clamp_page_le clamp_page_zero ceil_div_zero_iff ceil_div_zero)

text \<open>Claim C1, amended, at \<open>?page=7\<close> with 10 items of 3 per page: page 4 of 4.\<close>
theorem Paginate_current_page_witness:
  "(0::int) \<le> 10 \<and> (10::int) < 2 ^ 53 \<and> (1::int) \<le> 3 \<and>
   TotalPages (Paginate conversion_amd64 [(''page'', ''7'')] 10 3) = 4 \<and>
   CurrentPageNumber (Paginate conversion_amd64 [(''page'', ''7'')] 10 3) = 4 \<and>
   1 \<le> CurrentPageNumber (Paginate conversion_amd64 [(''page'', ''7'')] 10 3) \<and>
   CurrentPageNumber (Paginate conversion_amd64 [(''page'', ''7'')] 10 3) \<le> TotalPages (Paginate conversion_amd64 [(''page'', ''7'')] 10 3)"
  using Paginate_current_page
      [where totalItems = 10 and itemsPerPage = 3 and impl = conversion_amd64
         and c = "[(''page'', ''7'')]"]
  by (simp add: Paginate_def Paginate_page_Current Paginate_page_TotalPages DefaultQuery_def
      Atoi_eval ceil_div_eq clamp_page_def)

text \<open>
  Claim C4 as stated, that \<open>totalPages\<close> is the ceiling of \<open>totalItems / pageSize\<close>
  for every \<open>totalItems \<ge> 0\<close>, fails for counts that \<open>float64\<close> cannot hold: with
  \<open>2 ^ 53 + 1\<close> items of one per page the conversion rounds the count to \<open>2 ^ 53\<close>,
  and that is the number of pages returned.
\<close>
theorem Paginate_total_pages_counterexample:
  "TotalPages (Paginate conversion_amd64 [] (2 ^ 53 + 1) 1)
   \<noteq> \<lceil>real_of_int (2 ^ 53 + 1) / real_of_int 1\<rceil>"
proof -
  have "TotalPages (Paginate conversion_amd64 [] (2 ^ 53 + 1) 1) = 2 ^ 53"
    unfolding Paginate_def Paginate_page_TotalPages by (rule ceil_div_rounds)
  then show ?thesis by simp
qed

text \<open>
  Claim C4, amended. For \<open>0 \<le> totalItems < 2 ^ 53\<close> and \<open>itemsPerPage \<ge> 1\<close>, on every
  platform: the \<open>float64\<close> computation of \<open>TotalPages\<close> yields the exact ceiling of
  \<open>totalItems / itemsPerPage\<close>, that is, the least number of pages that hold all items,
  and 0 for no items; and \<open>CustomRange\<close> is the window of the specification around the
  current page, widened to five pages as it says.
\<close>
theorem Paginate_total_pages_and_window:
  assumes "0 \<le> totalItems" "totalItems < 2 ^ 53" "1 \<le> itemsPerPage"
  shows "TotalPages (Paginate impl c totalItems itemsPerPage)
           = \<lceil>real_of_int totalItems / real_of_int itemsPerPage\<rceil> \<and>
         totalItems \<le> TotalPages (Paginate impl c totalItems itemsPerPage) * itemsPerPage \<and>
         (TotalPages (Paginate impl c totalItems itemsPerPage) - 1) * itemsPerPage < totalItems \<and>
         (totalItems = 0 \<longrightarrow> TotalPages (Paginate impl c totalItems itemsPerPage) = 0) \<and>
         CustomRange (Paginate impl c totalItems itemsPerPage)
           = spec_window (CurrentPageNumber (Paginate impl c totalItems itemsPerPage))
               (TotalPages (Paginate impl c totalItems itemsPerPage))"
proof -
  have tp: "TotalPages (Paginate impl c totalItems itemsPerPage) = ceil_div impl totalItems itemsPerPage"
    by (simp add: Paginate_def Paginate_page_TotalPages)
  have w: "CustomRange (Paginate impl c totalItems itemsPerPage)
           = spec_window (CurrentPageNumber (Paginate impl c totalItems itemsPerPage))
               (ceil_div impl totalItems itemsPerPage)"
    unfolding Paginate_def Paginate_page_Current
    by (rule Paginate_window[OF assms is_int64_Atoi])
  show ?thesis
    unfolding tp using w ceil_div_least[OF assms, of impl] ceil_div_real[OF assms, of impl] assms(3)
    by (simp add: ceil_div_zero)
qed

text \<open>Claim C4, amended, at \<open>?page=3\<close> with 100 items of 10 per page: ten pages, window 1 to 5.\<close>
theorem Paginate_total_pages_and_window_witness:
  "(0::int) \<le> 100 \<and> (100::int) < 2 ^ 53 \<and> (1::int) \<le> 10 \<and>
   TotalPages (Paginate conversion_amd64 [(''page'', ''3'')] 100 10) = 10 \<and>
   CustomRange (Paginate conversion_amd64 [(''page'', ''3'')] 100 10) = [1, 2, 3, 4, 5] \<and>
   CustomRange (Paginate conversion_amd64 [(''page'', ''3'')] 100 10)
     = spec_window (CurrentPageNumber (Paginate conversion_amd64 [(''page'', ''3'')] 100 10))
         (TotalPages (Paginate conversion_amd64 [(''page'', ''3'')] 100 10))"
  using Paginate_total_pages_and_window
      [where totalItems = 100 and itemsPerPage = 10 and impl = conversion_amd64
         and c = "[(''page'', ''3'')]"]
  by (simp add: Paginate_def Paginate_page_Current Paginate_page_TotalPages DefaultQuery_def
      Atoi_eval ceil_div_eq clamp_page_def spec_window_def upto_rec1)






text \<open>
  Claim C10. For \<open>totalItems \<ge> 0\<close> and \<open>itemsPerPage \<ge> 1\<close> and every request,
  \<open>CustomRange\<close> is an interval of integers: each entry is its predecessor plus one,
  every entry lies between 1 and \<open>TotalPages\<close>, and the range is empty when there are no
  pages.
\<close>
theorem Paginate_custom_range_shape:
  assumes "0 \<le> totalItems" "totalItems < 2 ^ 53" "1 \<le> itemsPerPage"
  shows "(\<exists>a b. CustomRange (Paginate impl c totalItems itemsPerPage) = [a..b]) \<and>
         (\<forall>k. Suc k < length (CustomRange (Paginate impl c totalItems itemsPerPage)) \<longrightarrow>
              CustomRange (Paginate impl c totalItems itemsPerPage) ! Suc k
                = CustomRange (Paginate impl c totalItems itemsPerPage) ! k + 1) \<and>
         (\<forall>x \<in> set (CustomRange (Paginate impl c totalItems itemsPerPage)).
              1 \<le> x \<and> x \<le> TotalPages (Paginate impl c totalItems itemsPerPage)) \<and>
         (TotalPages (Paginate impl c totalItems itemsPerPage) = 0 \<longrightarrow>
              CustomRange (Paginate impl c totalItems itemsPerPage) = [])"
proof -
  define p where "p = Atoi (DefaultQuery c ''page'' ''1'')"
  define tp where "tp = ceil_div impl totalItems itemsPerPage"
  define cur where "cur = clamp_page p tp"
  have tpe: "TotalPages (Paginate impl c totalItems itemsPerPage) = tp"
    unfolding Paginate_def tp_def by (rule Paginate_page_TotalPages)
  have w: "CustomRange (Paginate impl c totalItems itemsPerPage) = spec_window cur tp"
    unfolding Paginate_def cur_def tp_def p_def
    by (rule Paginate_window[OF assms is_int64_Atoi])
  have "\<exists>a b. spec_window cur tp = [a..b] \<and> 1 \<le> a \<and> b \<le> tp"
  proof (cases "tp = 0")
    case True
    have "spec_window cur 0 = [1..0]" by (simp add: spec_window_zero)
    then show ?thesis unfolding True by blast
  next
    case False
    then have "0 < tp" unfolding tp_def using ceil_div_nonneg[OF assms, of impl] by simp
    then have "cur \<le> tp" unfolding cur_def by (rule clamp_page_le)
    then show ?thesis by (rule spec_window_interval[OF clamp_page_ge1[of p tp, folded cur_def]])
  qed
  then obtain a b where ab: "spec_window cur tp = [a..b]" "1 \<le> a" "b \<le> tp" by blast
  have z: "tp = 0 \<longrightarrow> [a..b] = []" using ab by simp
  have el: "\<forall>x \<in> set [a..b]. 1 \<le> x \<and> x \<le> tp" using ab by simp
  have cons: "\<forall>k. Suc k < length [a..b] \<longrightarrow> [a..b] ! Suc k = [a..b] ! k + 1"
    using upto_consecutive by blast
  show ?thesis unfolding tpe w ab(1) using z el cons by blast
qed

text \<open>Claim C10 at \<open>?page=6\<close> with 20 items of 3 per page: pages 3 to 7 of 7.\<close>
theorem Paginate_custom_range_shape_witness:
  "(0::int) \<le> 20 \<and> (20::int) < 2 ^ 53 \<and> (1::int) \<le> 3 \<and>
   CustomRange (Paginate conversion_amd64 [(''page'', ''6'')] 20 3) = [3, 4, 5, 6, 7] \<and>
   TotalPages (Paginate conversion_amd64 [(''page'', ''6'')] 20 3) = 7"
  using Paginate_custom_range_shape
      [where totalItems = 20 and itemsPerPage = 3 and impl = conversion_amd64
         and c = "[(''page'', ''6'')]"]
  by (simp add: Paginate_def Paginate_page_CustomRange Paginate_page_TotalPages DefaultQuery_def
      Atoi_eval ceil_div_eq clamp_page_def window_of_def
      add64_def sub64_def int64_def customRange_loop_upto upto_rec1)

section \<open>Properties of the use cases, for every repository\<close>

lemma looked_up_append: "looked_up (xs @ ys) = looked_up xs @ looked_up ys"
  by (induction xs rule: looked_up.induct) simp_all

lemma recording_FindOrCreateTag:
  "FindOrCreateTag (recording repo) tagName (s, calls) =
     (fst (FindOrCreateTag repo tagName s),
      (snd (FindOrCreateTag repo tagName s),
       calls @ [FindOrCreateTag_call tagName (fst (FindOrCreateTag repo tagName s))]))"
  by (simp add: recording_def split: prod.splits)

lemma recording_AssociateTagWithProject:
  "AssociateTagWithProject (recording repo) project tag (s, calls) =
     (fst (AssociateTagWithProject repo project tag s),
      (snd (AssociateTagWithProject repo project tag s),
       calls @ [AssociateTagWithProject_call project tag
                  (fst (AssociateTagWithProject repo project tag s))]))"
  by (simp add: recording_def split: prod.splits)

lemma recording_ClearProjectTags:
  "ClearProjectTags (recording repo) project (s, calls) =
     (fst (ClearProjectTags repo project s),
      (snd (ClearProjectTags repo project s), calls @ [ClearProjectTags_call project]))"
  by (simp add: recording_def split: prod.splits)

lemma recording_CreateProject:
  "CreateProject (recording repo) project (s, calls) =
     (fst (CreateProject repo project s), fst (snd (CreateProject repo project s)),
      (snd (snd (CreateProject repo project s)), calls @ [CreateProject_call project]))"
  by (simp add: recording_def split: prod.splits)

lemma recording_UpdateProject:
  "UpdateProject (recording repo) project (s, calls) =
     (fst (UpdateProject repo project s), fst (snd (UpdateProject repo project s)),
      (snd (snd (UpdateProject repo project s)), calls @ [UpdateProject_call project]))"
  by (simp add: recording_def split: prod.splits)

lemma tag_loop_recording_state:
  "fst (tag_loop (recording repo) project tagNames (s, calls)) = tag_loop repo project tagNames s"
proof (induction tagNames arbitrary: s calls)
  case Nil
  show ?case by simp
next
  case (Cons tagName rest)
  show ?case
    by (simp add: recording_FindOrCreateTag recording_AssociateTagWithProject Cons.IH
        split: prod.splits sum.splits option.splits)
qed

lemma tag_loop_recording_calls:
  "\<exists>new. snd (tag_loop (recording repo) project tagNames (s, calls)) = calls @ new \<and>
         looked_up new = tagNames \<and> tag_calls_ok project new"
proof (induction tagNames arbitrary: s calls)
  case Nil
  show ?case by simp
next
  case (Cons tagName rest)
  obtain res s1 where f: "FindOrCreateTag repo tagName s = (res, s1)"
    by (cases "FindOrCreateTag repo tagName s")
  show ?case
  proof (cases res)
    case (Inl err)
    let ?c = "calls @ [FindOrCreateTag_call tagName (Inl err)]"
    from Cons.IH[of s1 ?c]
    obtain new where n: "snd (tag_loop (recording repo) project rest (s1, ?c)) = ?c @ new"
      "looked_up new = rest" "tag_calls_ok project new"
      by blast
    show ?thesis
      using f Inl n
      by (intro exI[of _ "FindOrCreateTag_call tagName (Inl err) # new"])
        (simp add: recording_FindOrCreateTag)
  next
    case (Inr tag)
    obtain aerr s2 where a: "AssociateTagWithProject repo project tag s1 = (aerr, s2)"
      by (cases "AssociateTagWithProject repo project tag s1")
    let ?c = "calls @ [FindOrCreateTag_call tagName (Inr tag)]
                @ [AssociateTagWithProject_call project tag aerr]"
    from Cons.IH[of s2 ?c]
    obtain new where n: "snd (tag_loop (recording repo) project rest (s2, ?c)) = ?c @ new"
      "looked_up new = rest" "tag_calls_ok project new"
      by blast
    show ?thesis
      using f Inr a n
      by (intro exI[of _ "FindOrCreateTag_call tagName (Inr tag)
                           # AssociateTagWithProject_call project tag aerr # new"], cases aerr)
        (simp_all add: recording_FindOrCreateTag recording_AssociateTagWithProject)
  qed
qed

lemma CreateProject_recording:
  "ProjectUseCase_CreateProject (recording repo) project tagNames (s, []) =
     (case CreateProject repo project s of
        (Some err, project', s1) \<Rightarrow> (Some err, (s1, [CreateProject_call project]))
      | (None, project', s1) \<Rightarrow>
          (None, tag_loop (recording repo) project' tagNames (s1, [CreateProject_call project])))"
  by (simp add: ProjectUseCase_CreateProject_def recording_CreateProject split: prod.splits option.splits)

lemma UpdateProject_recording:
  "ProjectUseCase_UpdateProject (recording repo) project tagNames (s, []) =
     (case UpdateProject repo project (snd (ClearProjectTags repo project s)) of
        (Some err, project', s2) \<Rightarrow>
          (Some err, (s2, [ClearProjectTags_call project, UpdateProject_call project]))
      | (None, project', s2) \<Rightarrow>
          (None, tag_loop (recording repo) project' tagNames
                   (s2, [ClearProjectTags_call project, UpdateProject_call project])))"
  by (simp add: ProjectUseCase_UpdateProject_def recording_UpdateProject recording_ClearProjectTags
      split: prod.splits option.splits)

lemma UpdateProject_returns_save_error:
  "fst (ProjectUseCase_UpdateProject repo project tagNames s)
     = fst (UpdateProject repo project (snd (ClearProjectTags repo project s)))"
  by (simp add: ProjectUseCase_UpdateProject_def split: prod.splits option.splits)

lemma CreateProject_calls:
  assumes "fst (CreateProject repo project s) = None"
  shows "\<exists>tagCalls.
           snd (snd (ProjectUseCase_CreateProject (recording repo) project tagNames (s, [])))
             = CreateProject_call project # tagCalls \<and>
           looked_up tagCalls = tagNames \<and>
           tag_calls_ok (fst (snd (CreateProject repo project s))) tagCalls"
proof -
  obtain project' s1 where c: "CreateProject repo project s = (None, project', s1)"
    using assms by (cases "CreateProject repo project s") simp
  obtain new where "snd (tag_loop (recording repo) project' tagNames (s1, [CreateProject_call project]))
      = [CreateProject_call project] @ new" "looked_up new = tagNames" "tag_calls_ok project' new"
    using tag_loop_recording_calls[of repo project' tagNames s1 "[CreateProject_call project]"]
    by blast
  then show ?thesis by (simp add: CreateProject_recording c)
qed

lemma UpdateProject_calls:
  assumes "fst (UpdateProject repo project (snd (ClearProjectTags repo project s))) = None"
  shows "\<exists>tagCalls.
           snd (snd (ProjectUseCase_UpdateProject (recording repo) project tagNames (s, [])))
             = ClearProjectTags_call project # UpdateProject_call project # tagCalls \<and>
           looked_up tagCalls = tagNames \<and>
           tag_calls_ok
             (fst (snd (UpdateProject repo project (snd (ClearProjectTags repo project s)))))
             tagCalls"
proof -
  obtain project' s2 where
    u: "UpdateProject repo project (snd (ClearProjectTags repo project s)) = (None, project', s2)"
    using assms by (cases "UpdateProject repo project (snd (ClearProjectTags repo project s))") simp
  obtain new where "snd (tag_loop (recording repo) project' tagNames
        (s2, [ClearProjectTags_call project, UpdateProject_call project]))
      = [ClearProjectTags_call project, UpdateProject_call project] @ new"
      "looked_up new = tagNames" "tag_calls_ok project' new"
    using tag_loop_recording_calls[of repo project' tagNames s2
        "[ClearProjectTags_call project, UpdateProject_call project]"]
    by blast
  then show ?thesis by (simp add: UpdateProject_recording u)
qed

lemma UpdateProject_log:
  "\<exists>rest. snd (snd (ProjectUseCase_UpdateProject (recording repo) project tagNames (s, [])))
            = ClearProjectTags_call project # UpdateProject_call project # rest \<and>
          (if fst (UpdateProject repo project (snd (ClearProjectTags repo project s))) = None
           then looked_up rest = tagNames \<and>
                tag_calls_ok
                  (fst (snd (UpdateProject repo project (snd (ClearProjectTags repo project s)))))
                  rest
           else rest = [])"
proof (cases "fst (UpdateProject repo project (snd (ClearProjectTags repo project s))) = None")
  case True
  show ?thesis using UpdateProject_calls[OF True, of tagNames] True by simp
next
  case False
  then obtain e p' s2 where
    u: "UpdateProject repo project (snd (ClearProjectTags repo project s)) = (Some e, p', s2)"
    by (cases "UpdateProject repo project (snd (ClearProjectTags repo project s))") auto
  show ?thesis by (simp add: UpdateProject_recording u)
qed

lemma named_as_asked_append:
  "named_as_asked (xs @ ys) \<longleftrightarrow> named_as_asked xs \<and> named_as_asked ys"
  by (induction xs rule: named_as_asked.induct) simp_all

lemma tag_loop_recording_named:
  assumes "\<And>n s t s'. FindOrCreateTag repo n s = (Inr t, s') \<Longrightarrow> Tag_Name t = n"
  shows "named_as_asked calls \<Longrightarrow>
         named_as_asked (snd (tag_loop (recording repo) project tagNames (s, calls)))"
proof (induction tagNames arbitrary: s calls)
  case Nil
  then show ?case by simp
next
  case (Cons tagName rest)
  obtain res s1 where f: "FindOrCreateTag repo tagName s = (res, s1)"
    by (cases "FindOrCreateTag repo tagName s")
  show ?case
  proof (cases res)
    case (Inl err)
    have "named_as_asked (calls @ [FindOrCreateTag_call tagName (Inl err)])"
      using Cons.prems by (simp add: named_as_asked_append)
    from Cons.IH[OF this, of s1] show ?thesis
      using f Inl by (simp add: recording_FindOrCreateTag)
  next
    case (Inr tag)
    have n: "Tag_Name tag = tagName" using assms[of tagName s tag s1] f Inr by simp
    obtain aerr s2 where a: "AssociateTagWithProject repo project tag s1 = (aerr, s2)"
      by (cases "AssociateTagWithProject repo project tag s1")
    have "named_as_asked (calls @ [FindOrCreateTag_call tagName (Inr tag),
                                   AssociateTagWithProject_call project tag aerr])"
      using Cons.prems n by (simp add: named_as_asked_append)
    from Cons.IH[OF this, of s2] show ?thesis
      using f Inr a
      by (cases aerr) (simp_all add: recording_FindOrCreateTag recording_AssociateTagWithProject)
  qed
qed

lemma CreateProject_recording_named:
  assumes "\<And>n s t s'. FindOrCreateTag repo n s = (Inr t, s') \<Longrightarrow> Tag_Name t = n"
  shows "named_as_asked
           (snd (snd (ProjectUseCase_CreateProject (recording repo) project tagNames (s, []))))"
proof -
  obtain err p' s1 where c: "CreateProject repo project s = (err, p', s1)"
    by (cases "CreateProject repo project s")
  have "named_as_asked [CreateProject_call project]" by simp
  from tag_loop_recording_named[OF assms this, where project = p' and tagNames = tagNames and s = s1]
  show ?thesis by (cases err) (simp_all add: CreateProject_recording c)
qed

lemma UpdateProject_recording_named:
  assumes "\<And>n s t s'. FindOrCreateTag repo n s = (Inr t, s') \<Longrightarrow> Tag_Name t = n"
  shows "named_as_asked
           (snd (snd (ProjectUseCase_UpdateProject (recording repo) project tagNames (s, []))))"
proof -
  obtain err p' s2 where
    u: "UpdateProject repo project (snd (ClearProjectTags repo project s)) = (err, p', s2)"
    by (cases "UpdateProject repo project (snd (ClearProjectTags repo project s))")
  have "named_as_asked [ClearProjectTags_call project, UpdateProject_call project]" by simp
  from tag_loop_recording_named[OF assms this, where project = p' and tagNames = tagNames and s = s2]
  show ?thesis by (cases err) (simp_all add: UpdateProject_recording u)
qed

lemma Handler_CreateProject_looked_up:
  assumes "fst (CreateProject repo project s) = None"
  shows "looked_up (snd (snd (Handler_CreateProject (recording repo) project tagsStr (s, []))))
        = strings_Split tagsStr CHR '',''"
proof -
  obtain tagCalls where
    "snd (snd (ProjectUseCase_CreateProject (recording repo) project
                 (strings_Split tagsStr CHR '','') (s, [])))
       = CreateProject_call project # tagCalls"
    "looked_up tagCalls = strings_Split tagsStr CHR '',''"
    using CreateProject_calls[OF assms, of "strings_Split tagsStr CHR '',''"] by blast
  then show ?thesis by (simp add: Handler_CreateProject_def)
qed

lemma strings_Split_nonempty: "strings_Split s sep \<noteq> []"
  by (induction s) (auto split: list.splits)

lemma strings_Split_length: "length (strings_Split s sep) = Suc (count_list s sep)"
  by (induction s) (auto split: list.splits simp: strings_Split_nonempty)

lemmas gorm_eval =
  GormProjectRepository_def Gorm_CreateProject_def Gorm_UpdateProject_def Gorm_FindOrCreateTag_def
  Gorm_AssociateTagWithProject_def Gorm_ClearProjectTags_def next_failure_def uuid_New_def
  db_empty_def project_new_def

lemmas example_eval = gorm_eval db_down_def db_flaky_def db_tagged_def project_saved_def

lemma create_ok: "fst (CreateProject GormProjectRepository project_new db_empty) = None"
  by (simp add: gorm_eval)

lemma ce_split: "strings_Split '' go,,web '' CHR '','' = ['' go'', [], ''web '']"
  by simp

lemma ce_spec: "spec_candidates '' go,,web '' = [''go'', ''web'']"
  by (simp add: spec_candidates_def TrimSpace_def is_space_def)

text \<open>
  Claim C3. Whatever the repository does: once the project itself has been persisted
  (created, or saved after the clearing), the use case returns \<open>nil\<close>; after the call
  that persisted the project the log consists of tag calls only; every tag name of the
  list is handed to \<open>FindOrCreateTag\<close>, in order; a look-up that fails is skipped, a tag
  that is found is associated with the project as persisted, and the loop goes on after
  every failure of either call.
\<close>
theorem tag_failures_are_skipped:
  "(fst (CreateProject repo project s) = None \<longrightarrow>
      fst (ProjectUseCase_CreateProject repo project tagNames s) = None \<and>
      fst (ProjectUseCase_CreateProject (recording repo) project tagNames (s, [])) = None \<and>
      (\<exists>tagCalls.
         snd (snd (ProjectUseCase_CreateProject (recording repo) project tagNames (s, [])))
           = CreateProject_call project # tagCalls \<and>
         looked_up tagCalls = tagNames \<and>
         tag_calls_ok (fst (snd (CreateProject repo project s))) tagCalls)) \<and>
   (fst (UpdateProject repo project (snd (ClearProjectTags repo project s))) = None \<longrightarrow>
      fst (ProjectUseCase_UpdateProject repo project tagNames s) = None \<and>
      fst (ProjectUseCase_UpdateProject (recording repo) project tagNames (s, [])) = None \<and>
      (\<exists>tagCalls.
         snd (snd (ProjectUseCase_UpdateProject (recording repo) project tagNames (s, [])))
           = ClearProjectTags_call project # UpdateProject_call project # tagCalls \<and>
         looked_up tagCalls = tagNames \<and>
         tag_calls_ok
           (fst (snd (UpdateProject repo project (snd (ClearProjectTags repo project s)))))
           tagCalls))"
proof (intro conjI impI)
  assume ok: "fst (CreateProject repo project s) = None"
  then obtain project' s1 where c: "CreateProject repo project s = (None, project', s1)"
    by (cases "CreateProject repo project s") simp
  show "fst (ProjectUseCase_CreateProject repo project tagNames s) = None"
    by (simp add: ProjectUseCase_CreateProject_def c)
  show "fst (ProjectUseCase_CreateProject (recording repo) project tagNames (s, [])) = None"
    by (simp add: CreateProject_recording c)
  show "\<exists>tagCalls.
         snd (snd (ProjectUseCase_CreateProject (recording repo) project tagNames (s, [])))
           = CreateProject_call project # tagCalls \<and>
         looked_up tagCalls = tagNames \<and>
         tag_calls_ok (fst (snd (CreateProject repo project s))) tagCalls"
    by (rule CreateProject_calls[OF ok])
next
  assume ok: "fst (UpdateProject repo project (snd (ClearProjectTags repo project s))) = None"
  show "fst (ProjectUseCase_UpdateProject repo project tagNames s) = None"
    using ok by (simp only: UpdateProject_returns_save_error)
  obtain project' s2 where
    u: "UpdateProject repo project (snd (ClearProjectTags repo project s)) = (None, project', s2)"
    using ok by (cases "UpdateProject repo project (snd (ClearProjectTags repo project s))") simp
  show "fst (ProjectUseCase_UpdateProject (recording repo) project tagNames (s, [])) = None"
    by (simp add: UpdateProject_recording u)
  show "\<exists>tagCalls.
         snd (snd (ProjectUseCase_UpdateProject (recording repo) project tagNames (s, [])))
           = ClearProjectTags_call project # UpdateProject_call project # tagCalls \<and>
         looked_up tagCalls = tagNames \<and>
         tag_calls_ok
           (fst (snd (UpdateProject repo project (snd (ClearProjectTags repo project s)))))
           tagCalls"
    by (rule UpdateProject_calls[OF ok])
qed

text \<open>
  Claim C3 on a store that rejects the look-up of the first name and the association of
  the second: the log of the creation, and the result of an update whose clearing is
  rejected as well.
\<close>
theorem tag_failures_are_skipped_witness:
  "fst (CreateProject GormProjectRepository project_new db_flaky) = None \<and>
   fst (UpdateProject GormProjectRepository project_saved
          (snd (ClearProjectTags GormProjectRepository project_saved
                  (db_flaky\<lparr>failures := True ## failures db_flaky\<rparr>)))) = None \<and>
   fst (ProjectUseCase_CreateProject GormProjectRepository project_new [''go'', ''web''] db_flaky) = None \<and>
   snd (snd (ProjectUseCase_CreateProject (recording GormProjectRepository)
       project_new [''go'', ''web''] (db_flaky, [])))
     = [CreateProject_call project_new,
        FindOrCreateTag_call ''go'' (Inl PersistenceFailure),
        FindOrCreateTag_call ''web'' (Inr \<lparr>Tag_ID = 2, Tag_Name = ''web''\<rparr>),
        AssociateTagWithProject_call (project_new\<lparr>Project_ID := 1\<rparr>)
          \<lparr>Tag_ID = 2, Tag_Name = ''web''\<rparr> (Some PersistenceFailure)] \<and>
   fst (ProjectUseCase_UpdateProject GormProjectRepository project_saved [''go'', ''web'']
          (db_flaky\<lparr>failures := True ## failures db_flaky\<rparr>)) = None"
proof -
  have h1: "fst (CreateProject GormProjectRepository project_new db_flaky) = None"
    by (simp add: example_eval)
  have h2: "fst (UpdateProject GormProjectRepository project_saved
          (snd (ClearProjectTags GormProjectRepository project_saved
                  (db_flaky\<lparr>failures := True ## failures db_flaky\<rparr>)))) = None"
    by (simp add: example_eval)
  have l: "snd (snd (ProjectUseCase_CreateProject (recording GormProjectRepository)
       project_new [''go'', ''web''] (db_flaky, [])))
     = [CreateProject_call project_new,
        FindOrCreateTag_call ''go'' (Inl PersistenceFailure),
        FindOrCreateTag_call ''web'' (Inr \<lparr>Tag_ID = 2, Tag_Name = ''web''\<rparr>),
        AssociateTagWithProject_call (project_new\<lparr>Project_ID := 1\<rparr>)
          \<lparr>Tag_ID = 2, Tag_Name = ''web''\<rparr> (Some PersistenceFailure)]"
    by (simp add: CreateProject_recording recording_FindOrCreateTag
        recording_AssociateTagWithProject example_eval)
  show ?thesis
    using tag_failures_are_skipped [of GormProjectRepository project_new db_flaky "[''go'', ''web'']"]
      tag_failures_are_skipped [of GormProjectRepository project_saved
        "db_flaky\<lparr>failures := True ## failures db_flaky\<rparr>" "[''go'', ''web'']"]
      h1 h2 l
    by simp
qed

text \<open>
  Claim C7. Whatever the repository does: when creating the project fails, the use case
  returns that error, and the only repository call made is that \<open>CreateProject\<close>; no tag
  is looked up, created or associated.
\<close>
theorem project_failure_is_returned:
  assumes "CreateProject repo project s = (Some err, project', s')"
  shows "ProjectUseCase_CreateProject repo project tagNames s = (Some err, s') \<and>
         ProjectUseCase_CreateProject (recording repo) project tagNames (s, [])
           = (Some err, (s', [CreateProject_call project]))"
proof
  show "ProjectUseCase_CreateProject repo project tagNames s = (Some err, s')"
    using assms by (simp add: ProjectUseCase_CreateProject_def)
  show "ProjectUseCase_CreateProject (recording repo) project tagNames (s, [])
           = (Some err, (s', [CreateProject_call project]))"
    using assms by (simp add: CreateProject_recording)
qed

text \<open>Claim C7 on a store that is unreachable for the first call.\<close>
theorem project_failure_is_returned_witness:
  "CreateProject GormProjectRepository project_new db_down
     = (Some PersistenceFailure, project_new, db_empty) \<and>
   ProjectUseCase_CreateProject GormProjectRepository project_new [''go''] db_down
     = (Some PersistenceFailure, db_empty) \<and>
   ProjectUseCase_CreateProject (recording GormProjectRepository) project_new [''go''] (db_down, [])
     = (Some PersistenceFailure, (db_empty, [CreateProject_call project_new]))"
proof -
  have c: "CreateProject GormProjectRepository project_new db_down
     = (Some PersistenceFailure, project_new, db_empty)"
    by (simp add: example_eval)
  show ?thesis
    using c project_failure_is_returned [OF c, of "[''go'']"] by simp
qed

section \<open>Properties of the use cases over the GORM repository\<close>

lemma first_by_pk_in: "first_by_pk rows = Some t \<Longrightarrow> t \<in> set rows"
  by (induction rows arbitrary: t) (auto split: option.splits if_splits)

lemma first_by_pk_None: "first_by_pk rows = None \<longleftrightarrow> rows = []"
  by (cases rows) (auto split: option.splits)

lemma next_failure_tables:
  "next_failure db = (failed, db1) \<Longrightarrow>
     tags db1 = tags db \<and> project_tags db1 = project_tags db \<and> projects db1 = projects db \<and>
     uuids db1 = uuids db \<and> failed = shd (failures db)"
  by (auto simp: next_failure_def)

lemma uuid_New_tables:
  "uuid_New db = (u, db1) \<Longrightarrow>
     tags db1 = tags db \<and> project_tags db1 = project_tags db \<and> projects db1 = projects db"
  by (auto simp: uuid_New_def)

lemma Gorm_FindOrCreateTag_effect:
  assumes "Gorm_FindOrCreateTag n db = (res, db')"
  shows "project_tags db' = project_tags db"
    and "tags db' = tags db \<or>
         (\<exists>u. tags db' = tags db @ [\<lparr>Tag_ID = u, Tag_Name = n\<rparr>] \<and>
              u \<notin> set (map Tag_ID (tags db)) \<and> n \<notin> set (map Tag_Name (tags db)))"
    and "\<And>tag. res = Inr tag \<Longrightarrow> tag \<in> set (tags db') \<and> Tag_Name tag = n"
proof -
  obtain failed db1 where f: "next_failure db = (failed, db1)" by (cases "next_failure db")
  note t1 = next_failure_tables[OF f]
  obtain u db2 where g: "uuid_New db1 = (u, db2)" by (cases "uuid_New db1")
  note t2 = uuid_New_tables[OF g]
  have none: "n \<notin> set (map Tag_Name (tags db))"
    if "first_by_pk (filter (\<lambda>row. Tag_Name row = n) (tags db1)) = None"
    using that t1 by (auto simp: first_by_pk_None filter_empty_conv)
  show "project_tags db' = project_tags db"
    using assms t1 t2 by (auto simp: Gorm_FindOrCreateTag_def f g split: if_splits option.splits)
  show "tags db' = tags db \<or>
         (\<exists>u. tags db' = tags db @ [\<lparr>Tag_ID = u, Tag_Name = n\<rparr>] \<and>
              u \<notin> set (map Tag_ID (tags db)) \<and> n \<notin> set (map Tag_Name (tags db)))"
    using assms t1 t2 none
    by (auto simp: Gorm_FindOrCreateTag_def f g split: if_splits option.splits)
  show "\<And>tag. res = Inr tag \<Longrightarrow> tag \<in> set (tags db') \<and> Tag_Name tag = n"
    using assms t1 t2
    by (auto simp: Gorm_FindOrCreateTag_def f g split: if_splits option.splits
        dest!: first_by_pk_in)
qed

lemma Gorm_AssociateTagWithProject_effect:
  assumes "Gorm_AssociateTagWithProject p tag db = (err, db')"
  shows "tags db' = tags db"
    and "project_tags db' = project_tags db \<or>
         (project_tags db' = project_tags db @ [(Project_ID p, Tag_ID tag)] \<and>
          (Project_ID p, Tag_ID tag) \<notin> set (project_tags db))"
proof -
  obtain failed db1 where f: "next_failure db = (failed, db1)" by (cases "next_failure db")
  note t1 = next_failure_tables[OF f]
  show "tags db' = tags db"
    using assms t1 by (auto simp: Gorm_AssociateTagWithProject_def f split: if_splits)
  show "project_tags db' = project_tags db \<or>
         (project_tags db' = project_tags db @ [(Project_ID p, Tag_ID tag)] \<and>
          (Project_ID p, Tag_ID tag) \<notin> set (project_tags db))"
    using assms t1 by (auto simp: Gorm_AssociateTagWithProject_def f split: if_splits)
qed

lemma Gorm_ClearProjectTags_effect:
  assumes "Gorm_ClearProjectTags p db = (err, db')"
  shows "tags db' = tags db"
    and "shd (failures db) \<Longrightarrow> err \<noteq> None \<and> project_tags db' = project_tags db"
    and "\<not> shd (failures db) \<Longrightarrow> err = None \<and>
           project_tags db' = filter (\<lambda>row. fst row \<noteq> Project_ID p) (project_tags db)"
    and "failures db' = stl (failures db)"
proof -
  obtain failed db1 where f: "next_failure db = (failed, db1)" by (cases "next_failure db")
  note t1 = next_failure_tables[OF f]
  show "tags db' = tags db"
    using assms t1 by (auto simp: Gorm_ClearProjectTags_def f split: if_splits)
  show "shd (failures db) \<Longrightarrow> err \<noteq> None \<and> project_tags db' = project_tags db"
    using assms t1 by (auto simp: Gorm_ClearProjectTags_def f split: if_splits)
  show "\<not> shd (failures db) \<Longrightarrow> err = None \<and>
           project_tags db' = filter (\<lambda>row. fst row \<noteq> Project_ID p) (project_tags db)"
    using assms t1 by (auto simp: Gorm_ClearProjectTags_def f split: if_splits)
  show "failures db' = stl (failures db)"
    using assms f by (auto simp: Gorm_ClearProjectTags_def next_failure_def split: if_splits)
qed

lemma Gorm_CreateProject_effect:
  assumes "Gorm_CreateProject p db = (err, p', db')"
  shows "tags db' = tags db" and "project_tags db' = project_tags db"
    and "Project_ID p \<noteq> 0 \<Longrightarrow> Project_ID p' = Project_ID p"
proof -
  obtain failed db1 where f: "next_failure db = (failed, db1)" by (cases "next_failure db")
  note t1 = next_failure_tables[OF f]
  obtain u db2 where g: "uuid_New db1 = (u, db2)" by (cases "uuid_New db1")
  note t2 = uuid_New_tables[OF g]
  show "tags db' = tags db"
    using assms t1 t2 by (auto simp: Gorm_CreateProject_def f g split: if_splits)
  show "project_tags db' = project_tags db"
    using assms t1 t2 by (auto simp: Gorm_CreateProject_def f g split: if_splits)
  show "Project_ID p \<noteq> 0 \<Longrightarrow> Project_ID p' = Project_ID p"
    using assms by (auto simp: Gorm_CreateProject_def f g split: if_splits)
qed

lemma Gorm_UpdateProject_effect:
  assumes "Gorm_UpdateProject p db = (err, p', db')"
  shows "tags db' = tags db" and "project_tags db' = project_tags db"
    and "Project_ID p \<noteq> 0 \<Longrightarrow> Project_ID p' = Project_ID p"
proof -
  obtain failed db1 where f: "next_failure db = (failed, db1)" by (cases "next_failure db")
  note t1 = next_failure_tables[OF f]
  show "tags db' = tags db"
    using assms t1 Gorm_CreateProject_effect(1)[of p db err p' db']
    by (auto simp: Gorm_UpdateProject_def f split: if_splits)
  show "project_tags db' = project_tags db"
    using assms t1 Gorm_CreateProject_effect(2)[of p db err p' db']
    by (auto simp: Gorm_UpdateProject_def f split: if_splits)
  show "Project_ID p \<noteq> 0 \<Longrightarrow> Project_ID p' = Project_ID p"
    using assms by (auto simp: Gorm_UpdateProject_def f split: if_splits)
qed


lemma tags_added_refl: "tags_added pid names db db"
  by (simp add: tags_added_def)

lemma tags_added_trans:
  assumes "tags_added pid N db db1" "tags_added pid M db1 db2"
  shows "tags_added pid (N \<union> M) db db2"
proof -
  from assms(1) obtain new1 added1 where 1: "tags db1 = tags db @ new1"
    "project_tags db1 = project_tags db @ added1"
    "\<forall>row \<in> set added1. fst row = pid \<and> (\<exists>tag \<in> set (tags db1). Tag_ID tag = snd row \<and> Tag_Name tag \<in> N)"
    "db_invariant db \<longrightarrow> db_invariant db1"
    unfolding tags_added_def by blast
  from assms(2) obtain new2 added2 where 2: "tags db2 = tags db1 @ new2"
    "project_tags db2 = project_tags db1 @ added2"
    "\<forall>row \<in> set added2. fst row = pid \<and> (\<exists>tag \<in> set (tags db2). Tag_ID tag = snd row \<and> Tag_Name tag \<in> M)"
    "db_invariant db1 \<longrightarrow> db_invariant db2"
    unfolding tags_added_def by blast
  have a: "tags db2 = tags db @ (new1 @ new2)" using 1(1) 2(1) by simp
  have b: "project_tags db2 = project_tags db @ (added1 @ added2)" using 1(2) 2(2) by simp
  have sub: "set (tags db1) \<subseteq> set (tags db2)" using 2(1) by auto
  have c: "\<forall>row \<in> set (added1 @ added2). fst row = pid \<and>
      (\<exists>tag \<in> set (tags db2). Tag_ID tag = snd row \<and> Tag_Name tag \<in> N \<union> M)"
  proof
    fix row assume "row \<in> set (added1 @ added2)"
    then consider "row \<in> set added1" | "row \<in> set added2" by auto
    then show "fst row = pid \<and> (\<exists>tag \<in> set (tags db2). Tag_ID tag = snd row \<and> Tag_Name tag \<in> N \<union> M)"
    proof cases
      case 1
      with \<open>\<forall>row \<in> set added1. _\<close> obtain tag where "fst row = pid" "tag \<in> set (tags db1)"
        "Tag_ID tag = snd row" "Tag_Name tag \<in> N" by blast
      then show ?thesis using sub by blast
    next
      case 2
      with \<open>\<forall>row \<in> set added2. _\<close> show ?thesis by blast
    qed
  qed
  show ?thesis unfolding tags_added_def using a b c 1(4) 2(4) by blast
qed

lemma tags_added_mono: "tags_added pid N db db' \<Longrightarrow> N \<subseteq> M \<Longrightarrow> tags_added pid M db db'"
  unfolding tags_added_def by blast

lemma tags_added_find:
  assumes "Gorm_FindOrCreateTag n db = (res, db')"
  shows "tags_added pid {} db db'"
proof -
  note e = Gorm_FindOrCreateTag_effect[OF assms]
  have inv: "db_invariant db'" if "db_invariant db"
    using e(1,2) that by (auto simp: db_invariant_def)
  have "\<exists>new. tags db' = tags db @ new" using e(2) by auto
  then show ?thesis unfolding tags_added_def using e(1) inv by simp
qed

lemma tags_added_associate:
  assumes "Gorm_AssociateTagWithProject p tag db = (err, db')" "tag \<in> set (tags db)"
  shows "tags_added (Project_ID p) {Tag_Name tag} db db'"
proof -
  note e = Gorm_AssociateTagWithProject_effect[OF assms(1)]
  have inv: "db_invariant db'" if "db_invariant db"
    using e that by (auto simp: db_invariant_def)
  have "\<exists>added. project_tags db' = project_tags db @ added \<and>
        (\<forall>row \<in> set added. fst row = Project_ID p \<and>
           (\<exists>t \<in> set (tags db'). Tag_ID t = snd row \<and> Tag_Name t \<in> {Tag_Name tag}))"
  proof (cases "project_tags db' = project_tags db")
    case True
    then show ?thesis by (intro exI[of _ "[]"]) simp
  next
    case False
    then have "project_tags db' = project_tags db @ [(Project_ID p, Tag_ID tag)]" using e(2) by blast
    then show ?thesis using assms(2) e(1) by (intro exI[of _ "[(Project_ID p, Tag_ID tag)]"]) auto
  qed
  then show ?thesis unfolding tags_added_def using e(1) inv by simp
qed

lemma tag_loop_Gorm:
  "tags_added (Project_ID p) (set names) db (tag_loop GormProjectRepository p names db)"
proof (induction names arbitrary: db)
  case Nil
  show ?case by (simp add: tags_added_refl)
next
  case (Cons n rest)
  obtain res db1 where f: "Gorm_FindOrCreateTag n db = (res, db1)"
    by (cases "Gorm_FindOrCreateTag n db")
  have f': "FindOrCreateTag GormProjectRepository n db = (res, db1)"
    using f by (simp add: GormProjectRepository_def)
  have s1: "tags_added (Project_ID p) {} db db1" by (rule tags_added_find[OF f])
  show ?case
  proof (cases res)
    case (Inl err)
    have "tags_added (Project_ID p) ({} \<union> set rest) db (tag_loop GormProjectRepository p rest db1)"
      by (rule tags_added_trans[OF s1 Cons.IH])
    then have "tags_added (Project_ID p) (set (n # rest)) db (tag_loop GormProjectRepository p rest db1)"
      by (rule tags_added_mono) auto
    then show ?thesis using f' Inl by simp
  next
    case (Inr tag)
    obtain aerr db2 where a: "Gorm_AssociateTagWithProject p tag db1 = (aerr, db2)"
      by (cases "Gorm_AssociateTagWithProject p tag db1")
    have a': "AssociateTagWithProject GormProjectRepository p tag db1 = (aerr, db2)"
      using a by (simp add: GormProjectRepository_def)
    have tg: "tag \<in> set (tags db1)" "Tag_Name tag = n"
      using Gorm_FindOrCreateTag_effect(3)[OF f Inr] by simp_all
    have s2: "tags_added (Project_ID p) {n} db1 db2"
      using tags_added_associate[OF a tg(1)] tg(2) by simp
    have "tags_added (Project_ID p) (({} \<union> {n}) \<union> set rest) db (tag_loop GormProjectRepository p rest db2)"
      by (rule tags_added_trans[OF tags_added_trans[OF s1 s2] Cons.IH])
    then have "tags_added (Project_ID p) (set (n # rest)) db (tag_loop GormProjectRepository p rest db2)"
      by (rule tags_added_mono) auto
    then show ?thesis using f' Inr a' by (simp split: option.splits)
  qed
qed

lemma Project_Tags_distinct:
  assumes "db_invariant db"
  shows "distinct (map Tag_Name (Project_Tags pid db))"
proof -
  have ids: "distinct (map Tag_ID (tags db))" and names: "distinct (map Tag_Name (tags db))"
    and rows: "distinct (project_tags db)"
    using assms by (simp_all add: db_invariant_def)
  have inj: "\<And>t t'. t \<in> set (tags db) \<Longrightarrow> t' \<in> set (tags db) \<Longrightarrow> Tag_Name t = Tag_Name t' \<Longrightarrow> t = t'"
    using names by (meson distinct_map inj_onD)
  have "distinct (map Tag_Name (concat (map (\<lambda>row. if fst row = pid
                         then filter (\<lambda>tag. Tag_ID tag = snd row) (tags db) else []) js)))"
    if "distinct js" for js
    using that
  proof (induction js)
    case Nil
    show ?case by simp
  next
    case (Cons j js)
    have d1: "distinct (map Tag_Name (filter (\<lambda>tag. Tag_ID tag = snd j) (tags db)))"
      using names by (rule distinct_map_filter)
    have disj: False
      if "t \<in> set (tags db)" "Tag_ID t = snd j" "fst j = pid"
         "j' \<in> set js" "fst j' = pid" "t' \<in> set (tags db)" "Tag_ID t' = snd j'"
         "Tag_Name t = Tag_Name t'" for t t' j'
    proof -
      have "t = t'" using inj that by blast
      then have "j = j'" using that by (simp add: prod_eq_iff)
      then show False using Cons.prems that by simp
    qed
    show ?case using Cons d1 disj by (auto split: if_splits)
  qed
  then show ?thesis unfolding Project_Tags_def using rows by blast
qed


lemma tags_added_invariant: "tags_added pid N db db' \<Longrightarrow> db_invariant db \<Longrightarrow> db_invariant db'"
  by (simp add: tags_added_def)

lemma CreateProject_Gorm_shape:
  obtains db1 pid where "tags db1 = tags db" "project_tags db1 = project_tags db"
    "tags_added pid (set tagNames) db1
       (snd (ProjectUseCase_CreateProject GormProjectRepository project tagNames db))"
proof -
  obtain err p' db1 where c: "Gorm_CreateProject project db = (err, p', db1)"
    by (cases "Gorm_CreateProject project db")
  note e = Gorm_CreateProject_effect[OF c]
  have c': "CreateProject GormProjectRepository project db = (err, p', db1)"
    using c by (simp add: GormProjectRepository_def)
  have "tags_added (Project_ID p') (set tagNames) db1
       (snd (ProjectUseCase_CreateProject GormProjectRepository project tagNames db))"
    by (cases err) (simp_all add: ProjectUseCase_CreateProject_def c' tag_loop_Gorm tags_added_refl)
  then show ?thesis using that e by blast
qed

lemma UpdateProject_Gorm_run:
  obtains db1 db2 err p' where
    "tags db2 = tags db"
    "project_tags db2 = (if shd (failures db) then project_tags db
                         else filter (\<lambda>row. fst row \<noteq> Project_ID project) (project_tags db))"
    "Project_ID project \<noteq> 0 \<longrightarrow> Project_ID p' = Project_ID project"
    "ProjectUseCase_UpdateProject GormProjectRepository project tagNames db =
       (case err of Some e \<Rightarrow> (Some e, db2)
        | None \<Rightarrow> (None, tag_loop GormProjectRepository p' tagNames db2))"
proof -
  obtain cerr db1 where c: "Gorm_ClearProjectTags project db = (cerr, db1)"
    by (cases "Gorm_ClearProjectTags project db")
  note ec = Gorm_ClearProjectTags_effect[OF c]
  obtain err p' db2 where u: "Gorm_UpdateProject project db1 = (err, p', db2)"
    by (cases "Gorm_UpdateProject project db1")
  note eu = Gorm_UpdateProject_effect[OF u]
  have 1: "tags db2 = tags db" using ec(1) eu(1) by simp
  have 2: "project_tags db2 = (if shd (failures db) then project_tags db
                         else filter (\<lambda>row. fst row \<noteq> Project_ID project) (project_tags db))"
    using ec(2,3) eu(2) by simp
  have 3: "Project_ID project \<noteq> 0 \<longrightarrow> Project_ID p' = Project_ID project" using eu(3) by simp
  have 4: "ProjectUseCase_UpdateProject GormProjectRepository project tagNames db =
       (case err of Some e \<Rightarrow> (Some e, db2)
        | None \<Rightarrow> (None, tag_loop GormProjectRepository p' tagNames db2))"
    using c u by (simp add: ProjectUseCase_UpdateProject_def GormProjectRepository_def
        split: option.splits)
  show ?thesis using that[OF 1 2 3 4] .
qed

lemma UpdateProject_Gorm_shape:
  obtains db2 pid where "tags db2 = tags db"
    "project_tags db2 = (if shd (failures db) then project_tags db
                         else filter (\<lambda>row. fst row \<noteq> Project_ID project) (project_tags db))"
    "Project_ID project \<noteq> 0 \<longrightarrow> pid = Project_ID project"
    "tags_added pid (set tagNames) db2
       (snd (ProjectUseCase_UpdateProject GormProjectRepository project tagNames db))"
proof -
  obtain db1 db2 err p' where r: "tags db2 = tags db"
    "project_tags db2 = (if shd (failures db) then project_tags db
                         else filter (\<lambda>row. fst row \<noteq> Project_ID project) (project_tags db))"
    "Project_ID project \<noteq> 0 \<longrightarrow> Project_ID p' = Project_ID project"
    "ProjectUseCase_UpdateProject GormProjectRepository project tagNames db =
       (case err of Some e \<Rightarrow> (Some e, db2)
        | None \<Rightarrow> (None, tag_loop GormProjectRepository p' tagNames db2))"
    by (rule UpdateProject_Gorm_run)
  have "tags_added (Project_ID p') (set tagNames) db2
       (snd (ProjectUseCase_UpdateProject GormProjectRepository project tagNames db))"
    unfolding r(4) by (cases err) (simp_all add: tag_loop_Gorm tags_added_refl)
  then show ?thesis using that r(1,2,3) by blast
qed

lemma CreateProject_Gorm_invariant:
  assumes "db_invariant db"
  shows "db_invariant (snd (ProjectUseCase_CreateProject GormProjectRepository project tagNames db))"
proof -
  obtain db1 pid where r: "tags db1 = tags db" "project_tags db1 = project_tags db"
    "tags_added pid (set tagNames) db1
       (snd (ProjectUseCase_CreateProject GormProjectRepository project tagNames db))"
    by (rule CreateProject_Gorm_shape)
  have "db_invariant db1" using assms r(1,2) by (simp add: db_invariant_def)
  then show ?thesis by (rule tags_added_invariant[OF r(3)])
qed

lemma UpdateProject_Gorm_invariant:
  assumes "db_invariant db"
  shows "db_invariant (snd (ProjectUseCase_UpdateProject GormProjectRepository project tagNames db))"
proof -
  obtain db2 pid where r: "tags db2 = tags db"
    "project_tags db2 = (if shd (failures db) then project_tags db
                         else filter (\<lambda>row. fst row \<noteq> Project_ID project) (project_tags db))"
    "tags_added pid (set tagNames) db2
       (snd (ProjectUseCase_UpdateProject GormProjectRepository project tagNames db))"
    by (rule UpdateProject_Gorm_shape)
  have "db_invariant db2" using assms r(1,2) by (simp add: db_invariant_def)
  then show ?thesis by (rule tags_added_invariant[OF r(3)])
qed

text \<open>
  Claim C6. A store without tag rows satisfies the invariant. From every store that
  satisfies it, whatever the project and the list of names (repeated names included) and
  whichever calls fail, creating or updating a project keeps the invariant and leaves
  every project with tags of pairwise different names, names compared exactly; so does a
  second update with the same list.
\<close>
theorem reconciliation_keeps_names_distinct:
  "(tags db0 = [] \<and> project_tags db0 = [] \<longrightarrow> db_invariant db0) \<and>
   (db_invariant db \<longrightarrow>
      db_invariant (snd (ProjectUseCase_CreateProject GormProjectRepository project tagNames db)) \<and>
      distinct (map Tag_Name (Project_Tags pid
        (snd (ProjectUseCase_CreateProject GormProjectRepository project tagNames db)))) \<and>
      db_invariant (snd (ProjectUseCase_UpdateProject GormProjectRepository project tagNames db)) \<and>
      distinct (map Tag_Name (Project_Tags pid
        (snd (ProjectUseCase_UpdateProject GormProjectRepository project tagNames db)))) \<and>
      distinct (map Tag_Name (Project_Tags pid
        (snd (ProjectUseCase_UpdateProject GormProjectRepository project tagNames
           (snd (ProjectUseCase_UpdateProject GormProjectRepository project tagNames db)))))))"
proof (intro conjI impI)
  assume "tags db0 = [] \<and> project_tags db0 = []"
  then show "db_invariant db0" by (simp add: db_invariant_def)
next
  assume inv: "db_invariant db"
  show c: "db_invariant (snd (ProjectUseCase_CreateProject GormProjectRepository project tagNames db))"
    by (rule CreateProject_Gorm_invariant[OF inv])
  show "distinct (map Tag_Name (Project_Tags pid
        (snd (ProjectUseCase_CreateProject GormProjectRepository project tagNames db))))"
    by (rule Project_Tags_distinct[OF c])
  show u: "db_invariant (snd (ProjectUseCase_UpdateProject GormProjectRepository project tagNames db))"
    by (rule UpdateProject_Gorm_invariant[OF inv])
  show "distinct (map Tag_Name (Project_Tags pid
        (snd (ProjectUseCase_UpdateProject GormProjectRepository project tagNames db))))"
    by (rule Project_Tags_distinct[OF u])
  show "distinct (map Tag_Name (Project_Tags pid
        (snd (ProjectUseCase_UpdateProject GormProjectRepository project tagNames
           (snd (ProjectUseCase_UpdateProject GormProjectRepository project tagNames db))))))"
    by (rule Project_Tags_distinct[OF UpdateProject_Gorm_invariant[OF u]])
qed


lemma Gorm_FindOrCreateTag_named:
  "FindOrCreateTag GormProjectRepository n db = (Inr t, db') \<Longrightarrow> Tag_Name t = n"
  using Gorm_FindOrCreateTag_effect(3)[of n db "Inr t" db' t]
  by (simp add: GormProjectRepository_def)

lemma Gorm_AssociateTagWithProject_row:
  "Gorm_AssociateTagWithProject p tag db = (None, db') \<Longrightarrow>
     (Project_ID p, Tag_ID tag) \<in> set (project_tags db')"
  by (auto simp: Gorm_AssociateTagWithProject_def next_failure_def split: if_splits)

text \<open>
  Claim C2 as stated, that the candidates are the trimmed pieces without the empty ones,
  fails on the field \<open> go,,web \<close>: the names looked up are \<open> go\<close> with its blank, the
  empty name, and \<open>web \<close> with its blank.
\<close>
theorem handlers_trim_counterexample:
  "looked_up (snd (snd (Handler_CreateProject (recording GormProjectRepository) project_new
       '' go,,web '' (db_empty, []))))
   \<noteq> spec_candidates '' go,,web ''"
  unfolding Handler_CreateProject_looked_up [OF create_ok] ce_split ce_spec by simp

text \<open>
  Claim C2, amended. The field has one piece more than it has commas. Whatever the
  repository does, once the project is persisted the names handed to \<open>FindOrCreateTag\<close>
  are exactly the pieces of the form field between its commas, in order: no piece is
  trimmed and no piece is skipped; and a piece whose look-up returns a tag has that very
  tag associated with the persisted project before the next piece is looked up. Over the
  GORM repository every look-up of either handler that returns a tag returns one whose
  name is the piece as passed; after such a look-up that tag is a row of table \<open>tags\<close>,
  and after an association that succeeds the pair is a row of the join table.
\<close>
theorem handlers_pass_every_piece:
  "length (strings_Split tagsStr CHR '','') = Suc (count_list tagsStr CHR '','') \<and>
   (fst (CreateProject repo project s) = None \<longrightarrow>
      (\<exists>tagCalls.
         snd (snd (Handler_CreateProject (recording repo) project tagsStr (s, [])))
           = CreateProject_call project # tagCalls \<and>
         looked_up tagCalls = strings_Split tagsStr CHR '','' \<and>
         tag_calls_ok (fst (snd (CreateProject repo project s))) tagCalls)) \<and>
   (fst (UpdateProject repo project (snd (ClearProjectTags repo project s))) = None \<longrightarrow>
      (\<exists>tagCalls.
         snd (snd (Handler_UpdateProject (recording repo) project tagsStr (s, [])))
           = ClearProjectTags_call project # UpdateProject_call project # tagCalls \<and>
         looked_up tagCalls = strings_Split tagsStr CHR '','' \<and>
         tag_calls_ok
           (fst (snd (UpdateProject repo project (snd (ClearProjectTags repo project s)))))
           tagCalls)) \<and>
   named_as_asked (snd (snd (Handler_CreateProject (recording GormProjectRepository)
                               project tagsStr (db, [])))) \<and>
   named_as_asked (snd (snd (Handler_UpdateProject (recording GormProjectRepository)
                               project tagsStr (db, [])))) \<and>
   (\<forall>tag db1. Gorm_FindOrCreateTag name db = (Inr tag, db1) \<longrightarrow>
      Tag_Name tag = name \<and> tag \<in> set (tags db1)) \<and>
   (\<forall>tag db1. Gorm_AssociateTagWithProject project tag db = (None, db1) \<longrightarrow>
      (Project_ID project, Tag_ID tag) \<in> set (project_tags db1))"
proof -
  have 1: "length (strings_Split tagsStr CHR '','') = Suc (count_list tagsStr CHR '','')"
    by (rule strings_Split_length)
  have 2: "\<exists>tagCalls.
         snd (snd (Handler_CreateProject (recording repo) project tagsStr (s, [])))
           = CreateProject_call project # tagCalls \<and>
         looked_up tagCalls = strings_Split tagsStr CHR '','' \<and>
         tag_calls_ok (fst (snd (CreateProject repo project s))) tagCalls"
    if ok: "fst (CreateProject repo project s) = None"
    unfolding Handler_CreateProject_def Let_def by (rule CreateProject_calls[OF ok])
  have 3: "\<exists>tagCalls.
         snd (snd (Handler_UpdateProject (recording repo) project tagsStr (s, [])))
           = ClearProjectTags_call project # UpdateProject_call project # tagCalls \<and>
         looked_up tagCalls = strings_Split tagsStr CHR '','' \<and>
         tag_calls_ok
           (fst (snd (UpdateProject repo project (snd (ClearProjectTags repo project s)))))
           tagCalls"
    if ok: "fst (UpdateProject repo project (snd (ClearProjectTags repo project s))) = None"
    unfolding Handler_UpdateProject_def Let_def by (rule UpdateProject_calls[OF ok])
  have 4: "named_as_asked (snd (snd (Handler_CreateProject (recording GormProjectRepository)
                               project tagsStr (db, []))))"
    unfolding Handler_CreateProject_def Let_def
    by (rule CreateProject_recording_named) (rule Gorm_FindOrCreateTag_named)
  have 5: "named_as_asked (snd (snd (Handler_UpdateProject (recording GormProjectRepository)
                               project tagsStr (db, []))))"
    unfolding Handler_UpdateProject_def Let_def
    by (rule UpdateProject_recording_named) (rule Gorm_FindOrCreateTag_named)
  have 6: "Tag_Name tag = name \<and> tag \<in> set (tags db1)"
    if "Gorm_FindOrCreateTag name db = (Inr tag, db1)" for tag db1
    using Gorm_FindOrCreateTag_effect(3)[OF that refl] by simp
  have 7: "(Project_ID project, Tag_ID tag) \<in> set (project_tags db1)"
    if "Gorm_AssociateTagWithProject project tag db = (None, db1)" for tag db1
    using that by (rule Gorm_AssociateTagWithProject_row)
  show ?thesis using 1 2 3 4 5 6 7 by blast
qed

text \<open>
  Claim C2, amended, on the field \<open> go,,web \<close> over a healthy store: the calls of the
  creation, and the tables afterwards, with a tag of the empty name.
\<close>
theorem handlers_pass_every_piece_witness:
  "fst (CreateProject GormProjectRepository project_new db_empty) = None \<and>
   snd (snd (Handler_CreateProject (recording GormProjectRepository) project_new
       '' go,,web '' (db_empty, [])))
     = [CreateProject_call project_new,
        FindOrCreateTag_call '' go'' (Inr \<lparr>Tag_ID = 2, Tag_Name = '' go''\<rparr>),
        AssociateTagWithProject_call (project_new\<lparr>Project_ID := 1\<rparr>)
          \<lparr>Tag_ID = 2, Tag_Name = '' go''\<rparr> None,
        FindOrCreateTag_call [] (Inr \<lparr>Tag_ID = 3, Tag_Name = []\<rparr>),
        AssociateTagWithProject_call (project_new\<lparr>Project_ID := 1\<rparr>)
          \<lparr>Tag_ID = 3, Tag_Name = []\<rparr> None,
        FindOrCreateTag_call ''web '' (Inr \<lparr>Tag_ID = 4, Tag_Name = ''web ''\<rparr>),
        AssociateTagWithProject_call (project_new\<lparr>Project_ID := 1\<rparr>)
          \<lparr>Tag_ID = 4, Tag_Name = ''web ''\<rparr> None] \<and>
   named_as_asked (snd (snd (Handler_CreateProject (recording GormProjectRepository) project_new
       '' go,,web '' (db_empty, [])))) \<and>
   map Tag_Name (tags (snd (Handler_CreateProject GormProjectRepository project_new
       '' go,,web '' db_empty))) = ['' go'', [], ''web ''] \<and>
   project_tags (snd (Handler_CreateProject GormProjectRepository project_new
       '' go,,web '' db_empty)) = [(1, 2), (1, 3), (1, 4)]"
proof -
  have h: "fst (CreateProject GormProjectRepository project_new db_empty) = None"
    by (rule create_ok)
  have l: "snd (snd (Handler_CreateProject (recording GormProjectRepository) project_new
       '' go,,web '' (db_empty, [])))
     = [CreateProject_call project_new,
        FindOrCreateTag_call '' go'' (Inr \<lparr>Tag_ID = 2, Tag_Name = '' go''\<rparr>),
        AssociateTagWithProject_call (project_new\<lparr>Project_ID := 1\<rparr>)
          \<lparr>Tag_ID = 2, Tag_Name = '' go''\<rparr> None,
        FindOrCreateTag_call [] (Inr \<lparr>Tag_ID = 3, Tag_Name = []\<rparr>),
        AssociateTagWithProject_call (project_new\<lparr>Project_ID := 1\<rparr>)
          \<lparr>Tag_ID = 3, Tag_Name = []\<rparr> None,
        FindOrCreateTag_call ''web '' (Inr \<lparr>Tag_ID = 4, Tag_Name = ''web ''\<rparr>),
        AssociateTagWithProject_call (project_new\<lparr>Project_ID := 1\<rparr>)
          \<lparr>Tag_ID = 4, Tag_Name = ''web ''\<rparr> None]"
    unfolding Handler_CreateProject_def Let_def ce_split
    by (simp add: CreateProject_recording recording_FindOrCreateTag
        recording_AssociateTagWithProject gorm_eval)
  have t: "map Tag_Name (tags (snd (Handler_CreateProject GormProjectRepository project_new
       '' go,,web '' db_empty))) = ['' go'', [], ''web '']"
    "project_tags (snd (Handler_CreateProject GormProjectRepository project_new
       '' go,,web '' db_empty)) = [(1, 2), (1, 3), (1, 4)]"
    unfolding Handler_CreateProject_def Let_def ce_split
    by (simp_all add: ProjectUseCase_CreateProject_def gorm_eval)
  show ?thesis
    using handlers_pass_every_piece
      [of "'' go,,web ''" GormProjectRepository project_new db_empty db_empty] h l t
    by simp
qed

lemma Project_Tags_none:
  "\<forall>row \<in> set (project_tags db). fst row \<noteq> pid \<Longrightarrow> Project_Tags pid db = []"
  by (simp add: Project_Tags_def)

lemma UpdateProject_Gorm_saved:
  assumes "Gorm_ClearProjectTags project db = (cerr, db1)"
    and "Gorm_UpdateProject project db1 = (err, p', db2)"
  shows "tags_added (Project_ID p') (set tagNames) db2
           (snd (ProjectUseCase_UpdateProject GormProjectRepository project tagNames db))"
    and "err \<noteq> None \<Longrightarrow>
           snd (ProjectUseCase_UpdateProject GormProjectRepository project tagNames db) = db2"
    and "snd (ProjectUseCase_UpdateProject GormProjectRepository project [] db) = db2"
proof -
  have r: "ProjectUseCase_UpdateProject GormProjectRepository project names db =
       (case err of Some e \<Rightarrow> (Some e, db2)
        | None \<Rightarrow> (None, tag_loop GormProjectRepository p' names db2))" for names
    using assms by (simp add: ProjectUseCase_UpdateProject_def GormProjectRepository_def
        split: option.splits)
  show "tags_added (Project_ID p') (set tagNames) db2
           (snd (ProjectUseCase_UpdateProject GormProjectRepository project tagNames db))"
    unfolding r by (cases err) (simp_all add: tag_loop_Gorm tags_added_refl)
  show "err \<noteq> None \<Longrightarrow>
           snd (ProjectUseCase_UpdateProject GormProjectRepository project tagNames db) = db2"
    unfolding r by (cases err) simp_all
  show "snd (ProjectUseCase_UpdateProject GormProjectRepository project [] db) = db2"
    unfolding r by (cases err) simp_all
qed

text \<open>
  Claim C5, amended. Whatever the repository does, an update calls \<open>ClearProjectTags\<close>
  first and \<open>UpdateProject\<close> second, ignores the error of the clearing and returns the
  error of the save; when the save fails no further call is made, and when it succeeds
  the calls that follow are the look-ups of the new names, each tag found being
  associated with the saved project. Over the GORM repository: no tag row is ever
  removed; every association of another project is kept; every association that is new
  is of the saved project (which has the key it was passed with, when it was passed with
  one) to a tag named in the new list. When the clearing succeeds, every association
  under the project's key afterwards is to a tag named in the new list, and with the
  empty list there is none and no tag row is added. When the clearing fails, the previous
  associations stay.
\<close>
theorem UpdateProject_clears_then_adds:
  "fst (ProjectUseCase_UpdateProject repo project tagNames s)
     = fst (UpdateProject repo project (snd (ClearProjectTags repo project s))) \<and>
   (\<exists>rest. snd (snd (ProjectUseCase_UpdateProject (recording repo) project tagNames (s, [])))
            = ClearProjectTags_call project # UpdateProject_call project # rest \<and>
          (if fst (UpdateProject repo project (snd (ClearProjectTags repo project s))) = None
           then looked_up rest = tagNames \<and>
                tag_calls_ok
                  (fst (snd (UpdateProject repo project (snd (ClearProjectTags repo project s)))))
                  rest
           else rest = [])) \<and>
   (let db' = snd (ProjectUseCase_UpdateProject GormProjectRepository project tagNames db);
        saved = fst (snd (Gorm_UpdateProject project (snd (Gorm_ClearProjectTags project db))))
    in (\<exists>new. tags db' = tags db @ new) \<and>
       (\<forall>row \<in> set (project_tags db).
          fst row \<noteq> Project_ID project \<longrightarrow> row \<in> set (project_tags db')) \<and>
       (\<forall>row \<in> set (project_tags db').
          row \<in> set (project_tags db) \<or>
          fst row = Project_ID saved \<and>
          (\<exists>tag \<in> set (tags db'). Tag_ID tag = snd row \<and> Tag_Name tag \<in> set tagNames)) \<and>
       (Project_ID project \<noteq> 0 \<longrightarrow> Project_ID saved = Project_ID project) \<and>
       (fst (Gorm_ClearProjectTags project db) = None \<longrightarrow>
          (\<forall>row \<in> set (project_tags db').
             fst row = Project_ID project \<longrightarrow>
             (\<exists>tag \<in> set (tags db'). Tag_ID tag = snd row \<and> Tag_Name tag \<in> set tagNames)) \<and>
          Project_Tags (Project_ID project)
            (snd (ProjectUseCase_UpdateProject GormProjectRepository project [] db)) = [] \<and>
          tags (snd (ProjectUseCase_UpdateProject GormProjectRepository project [] db)) = tags db) \<and>
       (fst (Gorm_ClearProjectTags project db) \<noteq> None \<longrightarrow>
          set (project_tags db) \<subseteq> set (project_tags db')))"
proof -
  define db' where "db' = snd (ProjectUseCase_UpdateProject GormProjectRepository project tagNames db)"
  define db0 where "db0 = snd (ProjectUseCase_UpdateProject GormProjectRepository project [] db)"
  define pid where "pid = Project_ID project"
  obtain cerr db1 where c: "Gorm_ClearProjectTags project db = (cerr, db1)"
    by (cases "Gorm_ClearProjectTags project db")
  note ec = Gorm_ClearProjectTags_effect[OF c]
  obtain err saved db2 where u: "Gorm_UpdateProject project db1 = (err, saved, db2)"
    by (cases "Gorm_UpdateProject project db1")
  note eu = Gorm_UpdateProject_effect[OF u]
  note run = UpdateProject_Gorm_saved[OF c u]
  have t2: "tags db2 = tags db" using ec(1) eu(1) by simp
  have p2: "project_tags db2 = project_tags db1" using eu(2) by simp
  have ok: "project_tags db1 = filter (\<lambda>row. fst row \<noteq> pid) (project_tags db)" if "cerr = None"
    using ec(2,3) that unfolding pid_def by (cases "shd (failures db)") simp_all
  have ko: "project_tags db1 = project_tags db" if "cerr \<noteq> None"
    using ec(2,3) that by (cases "shd (failures db)") simp_all
  have sub: "set (project_tags db1) \<subseteq> set (project_tags db)"
    using ok ko by (cases cerr) auto
  have keep: "row \<in> set (project_tags db1)" if "row \<in> set (project_tags db)" "fst row \<noteq> pid" for row
    using ok ko that by (cases cerr) auto
  from run(1)[of tagNames] obtain new added where g: "tags db' = tags db2 @ new"
    "project_tags db' = project_tags db2 @ added"
    "\<forall>row \<in> set added. fst row = Project_ID saved \<and>
       (\<exists>tag \<in> set (tags db'). Tag_ID tag = snd row \<and> Tag_Name tag \<in> set tagNames)"
    unfolding tags_added_def db'_def by blast
  have g1: "fst (ProjectUseCase_UpdateProject repo project tagNames s)
     = fst (UpdateProject repo project (snd (ClearProjectTags repo project s)))"
    by (rule UpdateProject_returns_save_error)
  note g2 = UpdateProject_log[of repo project tagNames s]
  have c1: "\<exists>new. tags db' = tags db @ new" using g(1) t2 by simp
  have c2: "\<forall>row \<in> set (project_tags db). fst row \<noteq> pid \<longrightarrow> row \<in> set (project_tags db')"
    using keep g(2) p2 by auto
  have c3: "\<forall>row \<in> set (project_tags db').
          row \<in> set (project_tags db) \<or>
          fst row = Project_ID saved \<and>
          (\<exists>tag \<in> set (tags db'). Tag_ID tag = snd row \<and> Tag_Name tag \<in> set tagNames)"
    using g(2,3) p2 sub by auto
  have c4: "pid \<noteq> 0 \<longrightarrow> Project_ID saved = pid" using eu(3) by (simp add: pid_def)
  have c5: "\<forall>row \<in> set (project_tags db').
             fst row = pid \<longrightarrow>
             (\<exists>tag \<in> set (tags db'). Tag_ID tag = snd row \<and> Tag_Name tag \<in> set tagNames)"
    if "cerr = None"
    using g(2,3) p2 ok[OF that] by auto
  have c6: "Project_Tags pid db0 = [] \<and> tags db0 = tags db" if "cerr = None"
  proof -
    have s: "db0 = db2" unfolding db0_def by (rule run(3))
    have "Project_Tags pid db2 = []"
      by (rule Project_Tags_none) (simp add: p2 ok[OF that])
    then show ?thesis unfolding s using t2 by simp
  qed
  have c7: "set (project_tags db) \<subseteq> set (project_tags db')" if "cerr \<noteq> None"
    using g(2) p2 ko[OF that] by auto
  have gorm: "(\<exists>new. tags db' = tags db @ new) \<and>
       (\<forall>row \<in> set (project_tags db). fst row \<noteq> pid \<longrightarrow> row \<in> set (project_tags db')) \<and>
       (\<forall>row \<in> set (project_tags db').
          row \<in> set (project_tags db) \<or>
          fst row = Project_ID saved \<and>
          (\<exists>tag \<in> set (tags db'). Tag_ID tag = snd row \<and> Tag_Name tag \<in> set tagNames)) \<and>
       (pid \<noteq> 0 \<longrightarrow> Project_ID saved = pid) \<and>
       (cerr = None \<longrightarrow>
          (\<forall>row \<in> set (project_tags db').
             fst row = pid \<longrightarrow>
             (\<exists>tag \<in> set (tags db'). Tag_ID tag = snd row \<and> Tag_Name tag \<in> set tagNames)) \<and>
          Project_Tags pid db0 = [] \<and> tags db0 = tags db) \<and>
       (cerr \<noteq> None \<longrightarrow> set (project_tags db) \<subseteq> set (project_tags db'))"
    using c1 c2 c3 c4 c5 c6 c7 by blast
  show ?thesis
    unfolding Let_def c u fst_conv snd_conv
    using g1 g2 gorm unfolding db'_def db0_def pid_def by blast
qed

text \<open>
  Claim C5 as stated, that an update with the empty list leaves the project without
  tags, fails when the store rejects the clearing: the use case ignores that error,
  reports success, and the project keeps its tag.
\<close>
theorem replace_counterexample:
  "fst (ProjectUseCase_UpdateProject GormProjectRepository project_saved [] db_tagged) = None \<and>
   Project_Tags (Project_ID project_saved)
     (snd (ProjectUseCase_UpdateProject GormProjectRepository project_saved [] db_tagged))
   \<noteq> []"
  by (simp add: ProjectUseCase_UpdateProject_def gorm_eval db_tagged_def project_saved_def
      Project_Tags_def)

text \<open>
  Claim C5, amended, on a project tagged \<open>go\<close> over a healthy store: updated with no
  names it has no tags, updated with \<open>web\<close> it has that one, and the row of \<open>go\<close>
  stays in table \<open>tags\<close>.
\<close>
theorem UpdateProject_clears_then_adds_witness:
  "fst (Gorm_ClearProjectTags project_saved (db_tagged\<lparr>failures := sconst False\<rparr>)) = None \<and>
   fst (ProjectUseCase_UpdateProject GormProjectRepository project_saved []
          (db_tagged\<lparr>failures := sconst False\<rparr>)) = None \<and>
   Project_Tags (Project_ID project_saved)
     (snd (ProjectUseCase_UpdateProject GormProjectRepository project_saved []
        (db_tagged\<lparr>failures := sconst False\<rparr>))) = [] \<and>
   tags (snd (ProjectUseCase_UpdateProject GormProjectRepository project_saved []
        (db_tagged\<lparr>failures := sconst False\<rparr>))) = tags db_tagged \<and>
   snd (snd (ProjectUseCase_UpdateProject (recording GormProjectRepository) project_saved [''web'']
        (db_tagged\<lparr>failures := sconst False\<rparr>, [])))
     = [ClearProjectTags_call project_saved, UpdateProject_call project_saved,
        FindOrCreateTag_call ''web'' (Inr \<lparr>Tag_ID = 2, Tag_Name = ''web''\<rparr>),
        AssociateTagWithProject_call project_saved \<lparr>Tag_ID = 2, Tag_Name = ''web''\<rparr> None] \<and>
   project_tags (snd (ProjectUseCase_UpdateProject GormProjectRepository project_saved [''web'']
        (db_tagged\<lparr>failures := sconst False\<rparr>))) = [(7, 2)] \<and>
   map Tag_Name (tags (snd (ProjectUseCase_UpdateProject GormProjectRepository project_saved
        [''web''] (db_tagged\<lparr>failures := sconst False\<rparr>)))) = [''go'', ''web'']"
proof -
  have nf: "fst (Gorm_ClearProjectTags project_saved (db_tagged\<lparr>failures := sconst False\<rparr>)) = None"
    by (simp add: Gorm_ClearProjectTags_def next_failure_def)
  have sv: "fst (UpdateProject GormProjectRepository project_saved
              (snd (ClearProjectTags GormProjectRepository project_saved
                      (db_tagged\<lparr>failures := sconst False\<rparr>)))) = None"
    by (simp add: example_eval)
  have t: "tags (db_tagged\<lparr>failures := sconst False\<rparr>) = tags db_tagged" by simp
  have a: "fst (ProjectUseCase_UpdateProject GormProjectRepository project_saved []
          (db_tagged\<lparr>failures := sconst False\<rparr>)) = None \<and>
      Project_Tags (Project_ID project_saved)
     (snd (ProjectUseCase_UpdateProject GormProjectRepository project_saved []
        (db_tagged\<lparr>failures := sconst False\<rparr>))) = [] \<and>
   tags (snd (ProjectUseCase_UpdateProject GormProjectRepository project_saved []
        (db_tagged\<lparr>failures := sconst False\<rparr>))) = tags db_tagged"
    using UpdateProject_clears_then_adds
      [of GormProjectRepository project_saved "[]" "db_tagged\<lparr>failures := sconst False\<rparr>"
          "db_tagged\<lparr>failures := sconst False\<rparr>"] nf sv t
    by (simp add: Let_def)
  have l: "snd (snd (ProjectUseCase_UpdateProject (recording GormProjectRepository) project_saved [''web'']
        (db_tagged\<lparr>failures := sconst False\<rparr>, [])))
     = [ClearProjectTags_call project_saved, UpdateProject_call project_saved,
        FindOrCreateTag_call ''web'' (Inr \<lparr>Tag_ID = 2, Tag_Name = ''web''\<rparr>),
        AssociateTagWithProject_call project_saved \<lparr>Tag_ID = 2, Tag_Name = ''web''\<rparr> None]"
    by (simp add: UpdateProject_recording recording_FindOrCreateTag
        recording_AssociateTagWithProject example_eval)
  have b: "project_tags (snd (ProjectUseCase_UpdateProject GormProjectRepository project_saved [''web'']
        (db_tagged\<lparr>failures := sconst False\<rparr>))) = [(7, 2)]"
    "map Tag_Name (tags (snd (ProjectUseCase_UpdateProject GormProjectRepository project_saved
        [''web''] (db_tagged\<lparr>failures := sconst False\<rparr>)))) = [''go'', ''web'']"
    by (simp_all add: ProjectUseCase_UpdateProject_def gorm_eval db_tagged_def project_saved_def)
  show ?thesis using nf a l b by simp
qed

text \<open>
  Claim C6 on a project tagged \<open>go\<close>, updated with \<open>go, go, Go\<close> while the clearing
  fails: its tags are then \<open>go\<close> and \<open>Go\<close>.
\<close>
theorem reconciliation_keeps_names_distinct_witness:
  "db_invariant db_tagged \<and>
   map Tag_Name (Project_Tags 7
     (snd (ProjectUseCase_UpdateProject GormProjectRepository project_saved
        [''go'', ''go'', ''Go''] db_tagged))) = [''go'', ''Go''] \<and>
   distinct (map Tag_Name (Project_Tags 7
     (snd (ProjectUseCase_UpdateProject GormProjectRepository project_saved
        [''go'', ''go'', ''Go''] db_tagged))))"
proof -
  have i: "db_invariant db_tagged" by (simp add: db_invariant_def db_tagged_def)
  have d: "distinct (map Tag_Name (Project_Tags 7
     (snd (ProjectUseCase_UpdateProject GormProjectRepository project_saved
        [''go'', ''go'', ''Go''] db_tagged))))"
    using reconciliation_keeps_names_distinct
      [of db_tagged db_tagged project_saved "[''go'', ''go'', ''Go'']" 7] i
    by blast
  have e: "map Tag_Name (Project_Tags 7
     (snd (ProjectUseCase_UpdateProject GormProjectRepository project_saved
        [''go'', ''go'', ''Go''] db_tagged))) = [''go'', ''Go'']"
    by (simp add: ProjectUseCase_UpdateProject_def gorm_eval db_tagged_def project_saved_def
        Project_Tags_def)
  show ?thesis using i d e by simp
qed

end
